theory Spec2Isabelle
  imports Main "HOL-Library.Sublist"
begin

section \<open>Strings\<close>

text \<open>
  A Python \<open>str\<close> is modelled as a \<^typ>\<open>string\<close>: one \<^typ>\<open>char\<close> per code point,
  for the code points below 256. The character predicates below are Python's
  (\<open>str.isspace\<close>, \<open>\d\<close>, \<open>str.lower\<close>) on that range.
\<close>

abbreviation NL :: char where
  "NL \<equiv> CHR 0x0A"

definition isspace :: "char \<Rightarrow> bool" where
  "isspace c = (c \<in> set [CHR 0x09, CHR 0x0A, CHR 0x0B, CHR 0x0C, CHR 0x0D,
                           CHR 0x1C, CHR 0x1D, CHR 0x1E, CHR 0x1F, CHR 0x20,
                           CHR 0x85, CHR 0xA0])"

definition isdigit :: "char \<Rightarrow> bool" where
  "isdigit c = (c \<in> set ''0123456789'')"

definition lower_char :: "char \<Rightarrow> char" where
  "lower_char c =
     (let n = (of_char c :: nat)
      in if (65 \<le> n \<and> n \<le> 90) \<or> (192 \<le> n \<and> n \<le> 222 \<and> n \<noteq> 215)
         then char_of (n + 32) else c)"

definition lower :: "string \<Rightarrow> string" where
  "lower s = map lower_char s"

definition lstrip :: "string \<Rightarrow> string" where
  "lstrip s = dropWhile isspace s"

definition rstrip :: "string \<Rightarrow> string" where
  "rstrip s = rev (dropWhile isspace (rev s))"

text \<open>\<open>s.strip()\<close>\<close>

definition strip :: "string \<Rightarrow> string" where
  "strip s = rstrip (lstrip s)"

text \<open>\<open>s.startswith(p)\<close> and \<open>s.endswith(p)\<close>\<close>

definition startswith :: "string \<Rightarrow> string \<Rightarrow> bool" where
  "startswith s p = (take (length p) s = p)"

definition endswith :: "string \<Rightarrow> string \<Rightarrow> bool" where
  "endswith s p = (length p \<le> length s \<and> drop (length s - length p) s = p)"

text \<open>\<open>s.find(old)\<close>: the least index at which \<open>old\<close> starts, counted from \<open>i\<close>.\<close>

fun find_from :: "nat \<Rightarrow> string \<Rightarrow> string \<Rightarrow> nat option" where
  "find_from i old [] = (if old = [] then Some i else None)"
| "find_from i old (c # cs) =
     (if startswith (c # cs) old then Some i else find_from (Suc i) old cs)"

definition str_find :: "string \<Rightarrow> string \<Rightarrow> nat option" where
  "str_find s old = find_from 0 old s"

text \<open>\<open>old in s\<close>\<close>

definition contains :: "string \<Rightarrow> string \<Rightarrow> bool" where
  "contains s old = (str_find s old \<noteq> None)"

text \<open>\<open>s.replace(old, new, 1)\<close>\<close>

definition replace_first :: "string \<Rightarrow> string \<Rightarrow> string \<Rightarrow> string" where
  "replace_first s old new =
     (case str_find s old of
        None \<Rightarrow> s
      | Some i \<Rightarrow> take i s @ new @ drop (i + length old) s)"

text \<open>
  \<open>s.replace(old, new)\<close>: every occurrence, left to right, without overlap. The
  program calls it with a non-empty \<open>old\<close> only; for an empty \<open>old\<close> Python puts
  \<open>new\<close> before every character and at the end.
\<close>

function replace_nonempty :: "string \<Rightarrow> string \<Rightarrow> string \<Rightarrow> string" where
  "replace_nonempty [] old new = []"
| "replace_nonempty (c # cs) old new =
     (if old \<noteq> [] \<and> startswith (c # cs) old
      then new @ replace_nonempty (drop (length old) (c # cs)) old new
      else c # replace_nonempty cs old new)"
  by pat_completeness auto
termination
  by (relation "measure (\<lambda>(s, old, new). length s)") (auto simp: neq_Nil_conv)

definition replace_all :: "string \<Rightarrow> string \<Rightarrow> string \<Rightarrow> string" where
  "replace_all s old new =
     (if old = [] then new @ concat (map (\<lambda>c. c # new) s)
      else replace_nonempty s old new)"

text \<open>\<open>s.split(sep)\<close> for a one-character separator, and \<open>sep.join(xs)\<close>.\<close>

fun split_on :: "char \<Rightarrow> string \<Rightarrow> string list" where
  "split_on sep [] = [[]]"
| "split_on sep (c # cs) =
     (if c = sep then [] # split_on sep cs
      else (case split_on sep cs of
              [] \<Rightarrow> [[c]]
            | w # ws \<Rightarrow> (c # w) # ws))"

fun join :: "string \<Rightarrow> string list \<Rightarrow> string" where
  "join sep [] = []"
| "join sep [x] = x"
| "join sep (x # y # ys) = x @ sep @ join sep (y # ys)"

text \<open>Python indexing \<open>xs[i]\<close>: a negative index counts from the end; out of range raises.\<close>

definition py_index :: "'a list \<Rightarrow> int \<Rightarrow> 'a option" where
  "py_index xs i =
     (if 0 \<le> i \<and> i < int (length xs) then Some (xs ! nat i)
      else if i < 0 \<and> - int (length xs) \<le> i then Some (xs ! nat (int (length xs) + i))
      else None)"

text \<open>\<open>html.escape(s)\<close> of the standard library, with its default \<open>quote=True\<close>.\<close>

definition escape_char :: "char \<Rightarrow> string" where
  "escape_char c =
     (if c = CHR ''&'' then ''&amp;''
      else if c = CHR ''<'' then ''&lt;''
      else if c = CHR ''>'' then ''&gt;''
      else if c = CHR 0x22 then ''&quot;''
      else if c = CHR 0x27 then ''&#x27;''
      else [c])"

definition html_escape :: "string \<Rightarrow> string" where
  "html_escape s = concat (map escape_char s)"

text \<open>\<open>int(s)\<close> on a run of decimal digits, and \<open>str(n)\<close> for \<open>n \<ge> 0\<close>.\<close>

definition digit_val :: "char \<Rightarrow> nat" where
  "digit_val c = of_char c - 48"

definition int_of_digits :: "string \<Rightarrow> nat" where
  "int_of_digits s = foldl (\<lambda>acc c. 10 * acc + digit_val c) 0 s"

function str_of_nat :: "nat \<Rightarrow> string" where
  "str_of_nat n =
     (if n < 10 then [char_of (48 + n)]
      else str_of_nat (n div 10) @ [char_of (48 + n mod 10)])"
  by pat_completeness auto
termination
  by (relation "measure id") auto

section \<open>Regular expressions\<close>

text \<open>
  The patterns of the program are sequences of literals, character classes, repetitions
  of a single character class (greedy or lazy), capture groups, one back-reference and
  one-character negative look-arounds. A pattern is therefore a flat list of items, with
  a group written as an \<open>Open\<close> and a \<open>Close\<close> marker around its items. No pattern of
  the program has an alternation or a repeated group.
\<close>

datatype cclass =
    AnyOf "char list"      \<comment> \<open>\<open>[abc]\<close>\<close>
  | NoneOf "char list"     \<comment> \<open>\<open>[^abc]\<close>; \<open>NoneOf []\<close> is \<open>.\<close> under DOTALL, \<open>NoneOf [NL]\<close> is \<open>.\<close>\<close>
  | Digit                  \<comment> \<open>\<open>\d\<close>\<close>
  | Space                  \<comment> \<open>\<open>\s\<close>\<close>

fun in_class :: "cclass \<Rightarrow> char \<Rightarrow> bool" where
  "in_class (AnyOf cs) c = (c \<in> set cs)"
| "in_class (NoneOf cs) c = (c \<notin> set cs)"
| "in_class Digit c = isdigit c"
| "in_class Space c = isspace c"

datatype item =
    Lit string                          \<comment> \<open>literal text\<close>
  | Cls cclass                          \<comment> \<open>one character of a class\<close>
  | Rep cclass nat "nat option" bool    \<comment> \<open>class, minimum, maximum, greedy\<close>
  | Open nat                            \<comment> \<open>start of group \<open>n\<close>\<close>
  | Close nat                           \<comment> \<open>end of group \<open>n\<close>\<close>
  | Bref nat                            \<comment> \<open>\<open>\n\<close>\<close>
  | NotBehind char                      \<comment> \<open>\<open>(?<!c)\<close>\<close>
  | NotAhead char                       \<comment> \<open>\<open>(?!c)\<close>\<close>
  | Bol                                 \<comment> \<open>\<open>^\<close> without MULTILINE\<close>

type_synonym regex = "item list"

text \<open>
  The groups of a match in progress: for an open group the text that was still to be
  read when it opened, for a closed group its text.
\<close>

record groups =
  opened :: "(nat \<times> string) list"
  closed :: "(nat \<times> string) list"

definition no_groups :: groups where
  "no_groups = \<lparr>opened = [], closed = []\<rparr>"

definition last_of :: "char option \<Rightarrow> string \<Rightarrow> char option" where
  "last_of prev w = (if w = [] then prev else Some (last w))"

definition dec_max :: "nat option \<Rightarrow> nat option" where
  "dec_max hi = map_option (\<lambda>h. h - 1) hi"

definition may_take :: "nat option \<Rightarrow> bool" where
  "may_take hi = (hi \<noteq> Some 0)"

text \<open>
  \<open>run r prev rest g\<close> matches the pattern \<open>r\<close> at one position: \<open>rest\<close> is the text from
  this position on and \<open>prev\<close> the character before it, if any. It returns the text
  left after the match and the groups, for the first way of matching in the order of
  Python's backtracking matcher: a greedy repetition takes one more character before it
  tries the rest of the pattern, a lazy one tries the rest of the pattern first.
\<close>

function run :: "regex \<Rightarrow> char option \<Rightarrow> string \<Rightarrow> groups \<Rightarrow> (string \<times> groups) option" where
  "run [] prev rest g = Some (rest, g)"
| "run (Lit w # r) prev rest g =
     (if startswith rest w then run r (last_of prev w) (drop (length w) rest) g else None)"
| "run (Cls c # r) prev [] g = None"
| "run (Cls c # r) prev (x # xs) g =
     (if in_class c x then run r (Some x) xs g else None)"
| "run (Rep c (Suc lo) hi greedy # r) prev [] g = None"
| "run (Rep c (Suc lo) hi greedy # r) prev (x # xs) g =
     (if in_class c x \<and> may_take hi
      then run (Rep c lo (dec_max hi) greedy # r) (Some x) xs g else None)"
| "run (Rep c 0 hi greedy # r) prev [] g = run r prev [] g"
| "run (Rep c 0 hi greedy # r) prev (x # xs) g =
     (if greedy then
        (case (if in_class c x \<and> may_take hi
               then run (Rep c 0 (dec_max hi) greedy # r) (Some x) xs g else None) of
           Some res \<Rightarrow> Some res
         | None \<Rightarrow> run r prev (x # xs) g)
      else
        (case run r prev (x # xs) g of
           Some res \<Rightarrow> Some res
         | None \<Rightarrow>
             (if in_class c x \<and> may_take hi
              then run (Rep c 0 (dec_max hi) greedy # r) (Some x) xs g else None)))"
| "run (Open n # r) prev rest g = run r prev rest (g\<lparr>opened := (n, rest) # opened g\<rparr>)"
| "run (Close n # r) prev rest g =
     (case map_of (opened g) n of
        None \<Rightarrow> None
      | Some start \<Rightarrow>
          run r prev rest
            (g\<lparr>closed := (n, take (length start - length rest) start) # closed g\<rparr>))"
| "run (Bref n # r) prev rest g =
     (case map_of (closed g) n of
        None \<Rightarrow> None
      | Some w \<Rightarrow>
          (if startswith rest w then run r (last_of prev w) (drop (length w) rest) g
           else None))"
| "run (NotBehind c # r) prev rest g = (if prev = Some c then None else run r prev rest g)"
| "run (NotAhead c # r) prev rest g =
     (if rest \<noteq> [] \<and> hd rest = c then None else run r prev rest g)"
| "run (Bol # r) prev rest g = (if prev = None then run r prev rest g else None)"
  by pat_completeness auto
termination
  by (relation "measures [\<lambda>(r, prev, rest, g). length r, \<lambda>(r, prev, rest, g). length rest]")
     auto

text \<open>\<open>m.group(n)\<close>; the groups of the program's patterns always take part in a match.\<close>

definition group :: "groups \<Rightarrow> nat \<Rightarrow> string" where
  "group g n = (case map_of (closed g) n of None \<Rightarrow> [] | Some w \<Rightarrow> w)"

text \<open>
  A match as the program reads it: \<open>m.start()\<close>, \<open>m.end()\<close>, \<open>m.group(0)\<close> and the
  groups.
\<close>

record rmatch =
  m_start :: nat
  m_end :: nat
  m_text :: string
  m_groups :: groups

text \<open>
  The match that starts at offset \<open>pos\<close>, where \<open>rest\<close> is the text from \<open>pos\<close> on. Every
  pattern of the program has a literal, so none matches the empty text, and the handling
  of empty matches by \<open>re\<close> is never reached: a match of length 0 counts as no match here.
\<close>

definition match_at :: "regex \<Rightarrow> nat \<Rightarrow> char option \<Rightarrow> string \<Rightarrow> rmatch option" where
  "match_at r pos prev rest =
     (case run r prev rest no_groups of
        None \<Rightarrow> None
      | Some (rest', g) \<Rightarrow>
          (let n = length rest - length rest'
           in if 0 < n
              then Some \<lparr>m_start = pos, m_end = pos + n, m_text = take n rest, m_groups = g\<rparr>
              else None))"

text \<open>\<open>re.match(r, s)\<close>\<close>

definition re_match :: "regex \<Rightarrow> string \<Rightarrow> rmatch option" where
  "re_match r s = match_at r 0 None s"

text \<open>\<open>re.search(r, s)\<close>: the leftmost position with a match.\<close>

fun search_from :: "regex \<Rightarrow> nat \<Rightarrow> char option \<Rightarrow> string \<Rightarrow> rmatch option" where
  "search_from r pos prev [] = None"
| "search_from r pos prev (x # xs) =
     (case match_at r pos prev (x # xs) of
        Some m \<Rightarrow> Some m
      | None \<Rightarrow> search_from r (Suc pos) (Some x) xs)"

definition re_search :: "regex \<Rightarrow> string \<Rightarrow> rmatch option" where
  "re_search r s = search_from r 0 None s"

text \<open>\<open>re.finditer(r, s)\<close>: the matches from left to right, each search starting where
  the match before it ended.\<close>

function finditer_from :: "regex \<Rightarrow> nat \<Rightarrow> char option \<Rightarrow> string \<Rightarrow> rmatch list" where
  "finditer_from r pos prev [] = []"
| "finditer_from r pos prev (x # xs) =
     (case match_at r pos prev (x # xs) of
        None \<Rightarrow> finditer_from r (Suc pos) (Some x) xs
      | Some m \<Rightarrow>
          m # finditer_from r (m_end m) (last_of prev (m_text m))
                (drop (Suc (m_end m - Suc pos)) (x # xs)))"
  by pat_completeness auto
termination
  by (relation "measure (\<lambda>(r, pos, prev, rest). length rest)") auto

definition finditer :: "regex \<Rightarrow> string \<Rightarrow> rmatch list" where
  "finditer r s = finditer_from r 0 None s"

text \<open>\<open>re.findall(r, s)\<close> for a pattern with one group: the texts of that group.\<close>

definition findall1 :: "regex \<Rightarrow> string \<Rightarrow> string list" where
  "findall1 r s = map (\<lambda>m. group (m_groups m) 1) (finditer r s)"

text \<open>\<open>re.sub(r, f, s)\<close> with a function \<open>f\<close> from the match to its replacement.\<close>

function sub_from :: "regex \<Rightarrow> (rmatch \<Rightarrow> string) \<Rightarrow> nat \<Rightarrow> char option \<Rightarrow> string \<Rightarrow> string" where
  "sub_from r f pos prev [] = []"
| "sub_from r f pos prev (x # xs) =
     (case match_at r pos prev (x # xs) of
        None \<Rightarrow> x # sub_from r f (Suc pos) (Some x) xs
      | Some m \<Rightarrow>
          f m @ sub_from r f (m_end m) (last_of prev (m_text m))
                  (drop (Suc (m_end m - Suc pos)) (x # xs)))"
  by pat_completeness auto
termination
  by (relation "measure (\<lambda>(r, f, pos, prev, rest). length rest)") auto

definition re_sub_fn :: "regex \<Rightarrow> (rmatch \<Rightarrow> string) \<Rightarrow> string \<Rightarrow> string" where
  "re_sub_fn r f s = sub_from r f 0 None s"

text \<open>
  \<open>re.sub(r, template, s)\<close>: a replacement template is literal text and group
  references \<open>\1\<close>, \<open>\2\<close>.
\<close>

datatype tpart = TLit string | TGrp nat

fun expand_part :: "groups \<Rightarrow> tpart \<Rightarrow> string" where
  "expand_part g (TLit w) = w"
| "expand_part g (TGrp n) = group g n"

definition expand :: "tpart list \<Rightarrow> rmatch \<Rightarrow> string" where
  "expand t m = concat (map (expand_part (m_groups m)) t)"

definition re_sub :: "regex \<Rightarrow> tpart list \<Rightarrow> string \<Rightarrow> string" where
  "re_sub r t s = re_sub_fn r (expand t) s"

text \<open>
  The start, the end and the text of a match. Two patterns that differ in their group
  markers only find the same spans; \<open>erase\<close> removes the markers, and \<open>groups_ok\<close> says
  that every group is opened before it is closed and that there is no back-reference.
\<close>

definition span :: "rmatch \<Rightarrow> nat \<times> nat \<times> string" where
  "span m = (m_start m, m_end m, m_text m)"

fun erase :: "regex \<Rightarrow> regex" where
  "erase [] = []"
| "erase (Open n # r) = erase r"
| "erase (Close n # r) = erase r"
| "erase (i # r) = i # erase r"

fun groups_ok :: "nat list \<Rightarrow> regex \<Rightarrow> bool" where
  "groups_ok os [] = True"
| "groups_ok os (Open n # r) = groups_ok (n # os) r"
| "groups_ok os (Close n # r) = (n \<in> set os \<and> groups_ok os r)"
| "groups_ok os (Bref n # r) = False"
| "groups_ok os (i # r) = groups_ok os r"

section \<open>The inline format processor\<close>

text \<open>\<^verbatim>\<open>!\[([^\]]*)\]\(([^)]+)\)\<close>\<close>

definition image_re :: regex where
  "image_re =
     [Lit ''!['', Open 1, Rep (NoneOf '']'') 0 None True, Close 1, Lit ''](''
     , Open 2, Rep (NoneOf '')'') 1 None True, Close 2, Lit '')'']"

text \<open>\<^verbatim>\<open>\[([^\]]+)\]\(([^)]+)\)\<close>\<close>

definition link_re :: regex where
  "link_re =
     [Lit ''['', Open 1, Rep (NoneOf '']'') 1 None True, Close 1, Lit ''](''
     , Open 2, Rep (NoneOf '')'') 1 None True, Close 2, Lit '')'']"

text \<open>\<^verbatim>\<open>\*\*(.+?)\*\*\<close>\<close>

definition bold_re :: regex where
  "bold_re = [Lit ''**'', Open 1, Rep (NoneOf [NL]) 1 None False, Close 1, Lit ''**'']"

text \<open>\<^verbatim>\<open>(?<!\*)\*([^*]+)\*(?!\*)\<close>\<close>

definition italic_re :: regex where
  "italic_re =
     [NotBehind (CHR ''*''), Lit ''*'', Open 1, Rep (NoneOf ''*'') 1 None True, Close 1
     , Lit ''*'', NotAhead (CHR ''*'')]"

text \<open>\<^verbatim>\<open>`([^`]+)`\<close>\<close>

definition code_re :: regex where
  "code_re = [Lit ''`'', Open 1, Rep (NoneOf ''`'') 1 None True, Close 1, Lit ''`'']"

definition image_tpl :: "tpart list" where
  \<open>image_tpl = [TLit ''<ac:image><ri:url ri:value="'', TGrp 2, TLit ''"/></ac:image>'']\<close>

definition link_tpl :: "tpart list" where
  \<open>link_tpl = [TLit ''<a href="'', TGrp 2, TLit ''">'', TGrp 1, TLit ''</a>'']\<close>

definition strong_tpl :: "tpart list" where
  "strong_tpl = [TLit ''<strong>'', TGrp 1, TLit ''</strong>'']"

definition em_tpl :: "tpart list" where
  "em_tpl = [TLit ''<em>'', TGrp 1, TLit ''</em>'']"

definition code_tpl :: "tpart list" where
  "code_tpl = [TLit ''<code>'', TGrp 1, TLit ''</code>'']"

text \<open>\<open>_process_inline_formats\<close>: the steps after the image step, and the whole.\<close>

definition inline_after_image :: "string \<Rightarrow> string" where
  "inline_after_image line =
     re_sub code_re code_tpl
       (re_sub italic_re em_tpl
         (re_sub bold_re strong_tpl
           (re_sub link_re link_tpl line)))"

definition process_inline_formats :: "string \<Rightarrow> string" where
  "process_inline_formats line = inline_after_image (re_sub image_re image_tpl line)"

section \<open>The Markdown to storage format compiler\<close>

record md_state =
  html_lines :: "string list"
  in_code_block :: bool
  in_table :: bool
  in_list :: bool
  list_type :: "string option"
  code_lang :: string
  code_content :: "string list"

definition md_init :: md_state where
  "md_init =
     \<lparr>html_lines = [], in_code_block = False, in_table = False, in_list = False,
      list_type = None, code_lang = [], code_content = []\<rparr>"

text \<open>How an f-string prints \<open>list_type\<close>.\<close>

definition show_list_type :: "string option \<Rightarrow> string" where
  "show_list_type t = (case t of None \<Rightarrow> ''None'' | Some w \<Rightarrow> w)"

definition emit :: "string \<Rightarrow> md_state \<Rightarrow> md_state" where
  "emit l st = st\<lparr>html_lines := html_lines st @ [l]\<rparr>"

text \<open>The macro a closing fence appends.\<close>

definition fence_macro :: "string \<Rightarrow> string \<Rightarrow> string" where
  \<open>fence_macro lang content =
     (if lang = ''mermaid'' then
        ''<ac:structured-macro ac:name="mermaid-macro"><ac:plain-text-body><![CDATA[''
        @ content @ '']]></ac:plain-text-body></ac:structured-macro>''
      else if lang \<in> set [''plantuml'', ''uml'', ''puml''] then
        ''<ac:structured-macro ac:name="plantuml"><ac:plain-text-body><![CDATA[''
        @ content @ '']]></ac:plain-text-body></ac:structured-macro>''
      else
        ''<ac:structured-macro ac:name="code">''
        @ (if lang \<noteq> [] then
             ''<ac:parameter ac:name="language">'' @ lang @ ''</ac:parameter>''
           else [])
        @ ''<ac:plain-text-body><![CDATA['' @ content
        @ '']]></ac:plain-text-body></ac:structured-macro>'')\<close>

text \<open>\<^verbatim>\<open>^\d+\.\s\<close>\<close>

definition ol_re :: regex where
  "ol_re = [Bol, Rep Digit 1 None True, Lit ''.'', Cls Space]"

definition table_row :: "string \<Rightarrow> string list \<Rightarrow> string" where
  "table_row tag cells =
     ''<tr>''
     @ concat (map (\<lambda>c. ''<'' @ tag @ ''>'' @ process_inline_formats (html_escape c)
                          @ ''</'' @ tag @ ''>'') cells)
     @ ''</tr>''"

text \<open>The block-level element of a line that is neither a fence nor a table row.\<close>

definition block_line :: "bool \<Rightarrow> bool \<Rightarrow> string \<Rightarrow> md_state \<Rightarrow> md_state" where
  "block_line is_ul_item is_ol_item escaped_line st =
     (if strip escaped_line = [] then st
      else if startswith escaped_line ''# '' then
        emit (''<h1>'' @ drop 2 escaped_line @ ''</h1>'') st
      else if startswith escaped_line ''## '' then
        emit (''<h2>'' @ drop 3 escaped_line @ ''</h2>'') st
      else if startswith escaped_line ''### '' then
        emit (''<h3>'' @ drop 4 escaped_line @ ''</h3>'') st
      else if startswith escaped_line ''#### '' then
        emit (''<h4>'' @ drop 5 escaped_line @ ''</h4>'') st
      else if startswith escaped_line ''##### '' then
        emit (''<h5>'' @ drop 6 escaped_line @ ''</h5>'') st
      else if startswith escaped_line ''###### '' then
        emit (''<h6>'' @ drop 7 escaped_line @ ''</h6>'') st
      else if startswith escaped_line ''&gt; '' then
        emit (''<blockquote><p>'' @ drop 5 escaped_line @ ''</p></blockquote>'') st
      else if is_ul_item then
        (let st1 = (if \<not> in_list st \<or> list_type st \<noteq> Some ''ul''
                    then (emit ''<ul>''
                            (if in_list st
                             then emit (''</'' @ show_list_type (list_type st) @ ''>'') st
                             else st))
                         \<lparr>in_list := True, list_type := Some ''ul''\<rparr>
                    else st)
         in emit (''<li>'' @ drop 2 escaped_line @ ''</li>'') st1)
      else if is_ol_item then
        (let st1 = (if \<not> in_list st \<or> list_type st \<noteq> Some ''ol''
                    then (emit ''<ol>''
                            (if in_list st
                             then emit (''</'' @ show_list_type (list_type st) @ ''>'') st
                             else st))
                         \<lparr>in_list := True, list_type := Some ''ol''\<rparr>
                    else st)
         in emit (''<li>'' @ re_sub ol_re [] escaped_line @ ''</li>'') st1)
      else emit (''<p>'' @ escaped_line @ ''</p>'') st)"

text \<open>One turn of the loop over the lines.\<close>

definition md_line :: "md_state \<Rightarrow> string \<Rightarrow> md_state" where
  "md_line st line =
     (if startswith (strip line) ''```'' then
        (if \<not> in_code_block st then
           st\<lparr>in_code_block := True, code_lang := lower (drop 3 (strip line)),
              code_content := []\<rparr>
         else
           (emit (fence_macro (code_lang st) (join [NL] (code_content st))) st)
             \<lparr>in_code_block := False, code_lang := []\<rparr>)
      else if in_code_block st then st\<lparr>code_content := code_content st @ [line]\<rparr>
      else
        (let stripped = strip line;
             is_ul_item = (startswith stripped ''- '' \<or> startswith stripped ''* '');
             is_ol_item = (re_match ol_re stripped \<noteq> None);
             st1 = (if in_list st \<and> \<not> is_ul_item \<and> \<not> is_ol_item
                    then (emit (''</'' @ show_list_type (list_type st) @ ''>'') st)
                           \<lparr>in_list := False, list_type := None\<rparr>
                    else st)
         in if startswith stripped ''|'' \<and> endswith stripped ''|'' then
              (let cells = map strip (split_on (CHR ''|'') (butlast (tl stripped)))
               in if list_all (\<lambda>c. set c \<subseteq> set ''-: '') cells then st1
                  else if \<not> in_table st1 then
                    emit (table_row ''th'' cells)
                      (emit ''<table><tbody>'' (st1\<lparr>in_table := True\<rparr>))
                  else emit (table_row ''td'' cells) st1)
            else
              (let st2 = (if in_table st1
                          then emit ''</tbody></table>'' (st1\<lparr>in_table := False\<rparr>)
                          else st1)
               in block_line is_ul_item is_ol_item
                    (process_inline_formats (html_escape line)) st2)))"

definition markdown_to_confluence :: "string \<Rightarrow> string" where
  "markdown_to_confluence markdown_content =
     (let st = foldl md_line md_init (split_on NL markdown_content);
          st1 = (if in_table st then emit ''</tbody></table>'' st else st);
          st2 = (if in_list st1
                 then emit (''</'' @ show_list_type (list_type st1) @ ''>'') st1 else st1)
      in join [NL] (html_lines st2))"

section \<open>The cell content processor\<close>

text \<open>\<^verbatim>\<open>\[image:([^\]]+)\]\<close>\<close>

definition bracket_image_re :: regex where
  "bracket_image_re = [Lit ''[image:'', Open 1, Rep (NoneOf '']'') 1 None True, Close 1, Lit '']'']"

text \<open>\<^verbatim>\<open>__(.+?)__\<close>\<close>

definition underscore_bold_re :: regex where
  "underscore_bold_re = [Lit ''__'', Open 1, Rep (NoneOf [NL]) 1 None False, Close 1, Lit ''__'']"

text \<open>\<^verbatim>\<open>(?<!\*)\*(?!\*)(.+?)(?<!\*)\*(?!\*)\<close>\<close>

definition cell_italic_re :: regex where
  "cell_italic_re =
     [NotBehind (CHR ''*''), Lit ''*'', NotAhead (CHR ''*'')
     , Open 1, Rep (NoneOf [NL]) 1 None False, Close 1
     , NotBehind (CHR ''*''), Lit ''*'', NotAhead (CHR ''*'')]"

definition attachment_image :: "string \<Rightarrow> string" where
  \<open>attachment_image filename =
     ''<ac:image><ri:attachment ri:filename="'' @ html_escape filename @ ''"/></ac:image>''\<close>

definition replace_image :: "rmatch \<Rightarrow> string" where
  "replace_image m = attachment_image (group (m_groups m) 1)"

definition replace_md_image :: "rmatch \<Rightarrow> string" where
  \<open>replace_md_image m =
     (let filename = group (m_groups m) 2
      in if \<not> startswith filename ''http'' then attachment_image filename
         else ''<img src="'' @ html_escape filename @ ''"/>'')\<close>

text \<open>\<open>_process_cell_content\<close>\<close>

definition process_cell_content :: "string \<Rightarrow> string" where
  "process_cell_content content =
     (let processed = re_sub_fn bracket_image_re replace_image content;
          processed = re_sub_fn image_re replace_md_image processed;
          processed = re_sub bold_re strong_tpl processed;
          processed = re_sub underscore_bold_re strong_tpl processed;
          processed = re_sub cell_italic_re em_tpl processed
      in if startswith (strip processed) ''<'' then processed
         else re_sub link_re link_tpl (re_sub code_re code_tpl processed))"

section \<open>The table locator\<close>

text \<open>
  What an operation answers without writing the page: the five failure results of the
  table operations and of the patch, and \<open>IndexError\<close> for the exception that a list
  index out of range raises.
\<close>

datatype error =
    TableIndexOutOfRange
  | RowIndexOutOfRange
  | ColumnIndexOutOfRange
  | MergedCells
  | RowspanCells
  | NoMatch
  | IndexError

text \<open>\<^verbatim>\<open>(<table[^>]*>)(.*?)(</table>)\<close> and \<^verbatim>\<open><table[^>]*>.*?</table>\<close>, with DOTALL\<close>

definition table_groups_re :: regex where
  "table_groups_re =
     [Open 1, Lit ''<table'', Rep (NoneOf ''>'') 0 None True, Lit ''>'', Close 1
     , Open 2, Rep (NoneOf []) 0 None False, Close 2
     , Open 3, Lit ''</table>'', Close 3]"

definition table_re :: regex where
  "table_re =
     [Lit ''<table'', Rep (NoneOf ''>'') 0 None True, Lit ''>''
     , Rep (NoneOf []) 0 None False, Lit ''</table>'']"

text \<open>\<^verbatim>\<open>(<tr[^>]*>)(.*?)(</tr>)\<close>, \<^verbatim>\<open><tr[^>]*>(.*?)</tr>\<close> and
  \<^verbatim>\<open><tr[^>]*>.*?</tr>\<close>, with DOTALL\<close>

definition row_groups_re :: regex where
  "row_groups_re =
     [Open 1, Lit ''<tr'', Rep (NoneOf ''>'') 0 None True, Lit ''>'', Close 1
     , Open 2, Rep (NoneOf []) 0 None False, Close 2
     , Open 3, Lit ''</tr>'', Close 3]"

definition row_content_re :: regex where
  "row_content_re =
     [Lit ''<tr'', Rep (NoneOf ''>'') 0 None True, Lit ''>''
     , Open 1, Rep (NoneOf []) 0 None False, Close 1, Lit ''</tr>'']"

definition row_re :: regex where
  "row_re =
     [Lit ''<tr'', Rep (NoneOf ''>'') 0 None True, Lit ''>''
     , Rep (NoneOf []) 0 None False, Lit ''</tr>'']"

text \<open>\<^verbatim>\<open>(<t[hd][^>]*>)(.*?)(</t[hd]>)\<close>, \<^verbatim>\<open><t[hd][^>]*>.*?</t[hd]>\<close>,
  \<^verbatim>\<open><t[hd][^>]*>(.*?)</t[hd]>\<close> and \<^verbatim>\<open><(t[hd])([^>]*)>(.*?)</\1>\<close>, with DOTALL\<close>

definition cell_groups_re :: regex where
  "cell_groups_re =
     [Open 1, Lit ''<t'', Cls (AnyOf ''hd''), Rep (NoneOf ''>'') 0 None True, Lit ''>'', Close 1
     , Open 2, Rep (NoneOf []) 0 None False, Close 2
     , Open 3, Lit ''</t'', Cls (AnyOf ''hd''), Lit ''>'', Close 3]"

definition cell_re :: regex where
  "cell_re =
     [Lit ''<t'', Cls (AnyOf ''hd''), Rep (NoneOf ''>'') 0 None True, Lit ''>''
     , Rep (NoneOf []) 0 None False
     , Lit ''</t'', Cls (AnyOf ''hd''), Lit ''>'']"

definition cell_content_re :: regex where
  "cell_content_re =
     [Lit ''<t'', Cls (AnyOf ''hd''), Rep (NoneOf ''>'') 0 None True, Lit ''>''
     , Open 1, Rep (NoneOf []) 0 None False, Close 1
     , Lit ''</t'', Cls (AnyOf ''hd''), Lit ''>'']"

definition cell_tag_re :: regex where
  "cell_tag_re =
     [Lit ''<'', Open 1, Lit ''t'', Cls (AnyOf ''hd''), Close 1
     , Open 2, Rep (NoneOf ''>'') 0 None True, Close 2, Lit ''>''
     , Open 3, Rep (NoneOf []) 0 None False, Close 3
     , Lit ''</'', Bref 1, Lit ''>'']"

text \<open>
  The tables of a document and the rows of a table, in the order of the text, each with
  its start, its end and its text.
\<close>

definition table_spans :: "string \<Rightarrow> (nat \<times> nat \<times> string) list" where
  "table_spans doc = map span (finditer table_re doc)"

definition row_spans :: "string \<Rightarrow> (nat \<times> nat \<times> string) list" where
  "row_spans table_html = map span (finditer row_re table_html)"

text \<open>\<^verbatim>\<open>colspan="(\d+)"\<close>, and \<^verbatim>\<open>name="([^"]*)"\<close> for the attributes that are copied\<close>

definition colspan_re :: regex where
  \<open>colspan_re = [Lit ''colspan="'', Open 1, Rep Digit 1 None True, Close 1, Lit ''"'']\<close>

definition attr_re :: "string \<Rightarrow> regex" where
  \<open>attr_re name =
     [Lit (name @ ''="''), Open 1, Rep (NoneOf ''"'') 0 None True, Close 1, Lit ''"'']\<close>

text \<open>\<open>m.group(1) if m else ""\<close>\<close>

definition attr_value :: "string \<Rightarrow> string \<Rightarrow> string" where
  "attr_value name tag =
     (case re_search (attr_re name) tag of
        None \<Rightarrow> []
      | Some m \<Rightarrow> group (m_groups m) 1)"

text \<open>\<^verbatim>\<open><tbody[^>]*>\<close> and \<^verbatim>\<open><table[^>]*>\<close>\<close>

definition tbody_open_re :: regex where
  "tbody_open_re = [Lit ''<tbody'', Rep (NoneOf ''>'') 0 None True, Lit ''>'']"

definition table_open_re :: regex where
  "table_open_re = [Lit ''<table'', Rep (NoneOf ''>'') 0 None True, Lit ''>'']"

text \<open>\<open>f'colspan="{n}"'\<close>\<close>

definition colspan_attr :: "nat \<Rightarrow> string" where
  \<open>colspan_attr n = ''colspan="'' @ str_of_nat n @ ''"''\<close>

text \<open>
  \<open>re.sub(r, f, s)\<close> where the function \<open>f\<close> may raise: the exception of the first
  match that raises leaves \<open>re.sub\<close>.
\<close>

function sub_from_e ::
  "regex \<Rightarrow> (rmatch \<Rightarrow> error + string) \<Rightarrow> nat \<Rightarrow> char option \<Rightarrow> string \<Rightarrow> error + string"
where
  "sub_from_e r f pos prev [] = Inr []"
| "sub_from_e r f pos prev (x # xs) =
     (case match_at r pos prev (x # xs) of
        None \<Rightarrow>
          (case sub_from_e r f (Suc pos) (Some x) xs of
             Inl e \<Rightarrow> Inl e
           | Inr t \<Rightarrow> Inr (x # t))
      | Some m \<Rightarrow>
          (case f m of
             Inl e \<Rightarrow> Inl e
           | Inr u \<Rightarrow>
               (case sub_from_e r f (m_end m) (last_of prev (m_text m))
                       (drop (Suc (m_end m - Suc pos)) (x # xs)) of
                  Inl e \<Rightarrow> Inl e
                | Inr t \<Rightarrow> Inr (u @ t))))"
  by pat_completeness auto
termination
  by (relation "measure (\<lambda>(r, f, pos, prev, rest). length rest)") auto

definition re_sub_fn_e :: "regex \<Rightarrow> (rmatch \<Rightarrow> error + string) \<Rightarrow> string \<Rightarrow> error + string" where
  "re_sub_fn_e r f s = sub_from_e r f 0 None s"

section \<open>The structural table editor\<close>

text \<open>
  Each operation is modelled as the function from the page's storage text
  (\<open>page_info['html']\<close>) and the arguments to either the text that the operation writes
  back with \<open>update_page_html\<close> (\<open>Inr\<close>) or the reason why nothing is written (\<open>Inl\<close>).
  Reading and writing the page over HTTP are outside the model.
\<close>

text \<open>\<open>if header_style:\<close>\<close>

definition truthy :: "string option \<Rightarrow> bool" where
  "truthy h = (case h of None \<Rightarrow> False | Some w \<Rightarrow> w \<noteq> [])"

text \<open>The new cell that \<open>insert_column\<close> builds beside the reference cell.\<close>

definition new_header_cell :: "string \<Rightarrow> string \<Rightarrow> string option \<Rightarrow> string" where
  \<open>new_header_cell ref_cell_tag column_name header_style =
     (let style = attr_value ''style'' ref_cell_tag;
          style = (if truthy header_style then the header_style else style)
      in ''<th style="'' @ style @ ''">'' @ column_name @ ''</th>'')\<close>

definition new_data_cell :: "string \<Rightarrow> string \<Rightarrow> string" where
  \<open>new_data_cell ref_cell_tag default_value =
     (let style = attr_value ''style'' ref_cell_tag;
          cell_class = attr_value ''class'' ref_cell_tag;
          highlight = attr_value ''data-highlight-colour'' ref_cell_tag
      in ''<td''
         @ (if cell_class \<noteq> [] then '' class="'' @ cell_class @ ''"'' else [])
         @ (if style \<noteq> [] then '' style="'' @ style @ ''"'' else [])
         @ (if highlight \<noteq> [] then '' data-highlight-colour="'' @ highlight @ ''"'' else [])
         @ ''>'' @ default_value @ ''</td>'')\<close>

text \<open>\<open>process_row\<close> of \<open>insert_column\<close>\<close>

definition insert_column_row ::
  "int \<Rightarrow> string \<Rightarrow> string \<Rightarrow> string option \<Rightarrow> rmatch \<Rightarrow> error + string"
where
  "insert_column_row column_position column_name default_value header_style row_match =
     (let row_tag = group (m_groups row_match) 1;
          row_content = group (m_groups row_match) 2;
          row_end = group (m_groups row_match) 3;
          cells = finditer cell_groups_re row_content
      in if cells = [] then Inr (m_text row_match)
         else
           (let first_cell_tag = group (m_groups (hd cells)) 1;
                colspan_match = re_search colspan_re first_cell_tag
            in if colspan_match \<noteq> None \<and> length cells \<le> 2 then
                 (let old_colspan = int_of_digits (group (m_groups (the colspan_match)) 1);
                      new_colspan = old_colspan + 1;
                      new_first_cell_tag =
                        replace_all first_cell_tag (colspan_attr old_colspan)
                          (colspan_attr new_colspan);
                      new_row_content = replace_first row_content first_cell_tag new_first_cell_tag
                  in Inr (row_tag @ new_row_content @ row_end))
               else
                 (let insert_pos = min column_position (int (length cells));
                      is_header_row = contains (group (m_groups (hd cells)) 1) ''<th'';
                      ref_cell_tag =
                        (if insert_pos > 0
                         then group (m_groups (cells ! nat (insert_pos - 1))) 1
                         else group (m_groups (hd cells)) 1);
                      new_cell =
                        (if is_header_row
                         then new_header_cell ref_cell_tag column_name header_style
                         else new_data_cell ref_cell_tag default_value)
                  in if insert_pos = 0 then Inr (row_tag @ (new_cell @ row_content) @ row_end)
                     else if insert_pos \<ge> int (length cells) then
                       Inr (row_tag @ (row_content @ new_cell) @ row_end)
                     else
                       (case py_index cells insert_pos of
                          None \<Rightarrow> Inl IndexError
                        | Some cell \<Rightarrow>
                            (let insert_point = m_start cell
                             in Inr (row_tag
                                     @ (take insert_point row_content @ new_cell
                                        @ drop insert_point row_content)
                                     @ row_end))))))"

definition insert_column ::
  "string \<Rightarrow> int \<Rightarrow> int \<Rightarrow> string \<Rightarrow> string \<Rightarrow> string option \<Rightarrow> error + string"
where
  "insert_column html_content table_index column_position column_name default_value header_style =
     (let tables = finditer table_groups_re html_content
      in if table_index \<ge> int (length tables) then Inl TableIndexOutOfRange
         else
           (case py_index tables table_index of
              None \<Rightarrow> Inl IndexError
            | Some target_table \<Rightarrow>
                (let table_start = group (m_groups target_table) 1;
                     table_content = group (m_groups target_table) 2;
                     table_end = group (m_groups target_table) 3
                 in case re_sub_fn_e row_groups_re
                           (insert_column_row column_position column_name default_value
                              header_style)
                           table_content of
                      Inl e \<Rightarrow> Inl e
                    | Inr new_table_content \<Rightarrow>
                        (let new_table = table_start @ new_table_content @ table_end
                         in Inr (take (m_start target_table) html_content @ new_table
                                 @ drop (m_end target_table) html_content)))))"

text \<open>\<open>process_row\<close> of \<open>delete_column\<close>\<close>

definition delete_column_row :: "int \<Rightarrow> rmatch \<Rightarrow> error + string" where
  "delete_column_row column_position row_match =
     (let row_tag = group (m_groups row_match) 1;
          row_content = group (m_groups row_match) 2;
          row_end = group (m_groups row_match) 3;
          cells = finditer cell_re row_content
      in if cells = [] \<or> column_position \<ge> int (length cells) then Inr (m_text row_match)
         else
           (let first_cell = m_text (hd cells);
                colspan_match = re_search colspan_re first_cell
            in if colspan_match \<noteq> None \<and> length cells \<le> 2 then
                 (let old_colspan = int_of_digits (group (m_groups (the colspan_match)) 1)
                  in if old_colspan > 1 then
                       (let new_first_cell =
                              replace_all first_cell (colspan_attr old_colspan)
                                (colspan_attr (old_colspan - 1));
                            new_row_content = replace_first row_content first_cell new_first_cell
                        in Inr (row_tag @ new_row_content @ row_end))
                     else Inr (m_text row_match))
               else
                 (case py_index cells column_position of
                    None \<Rightarrow> Inl IndexError
                  | Some target_cell \<Rightarrow>
                      Inr (row_tag
                           @ (take (m_start target_cell) row_content
                              @ drop (m_end target_cell) row_content)
                           @ row_end))))"

definition delete_column :: "string \<Rightarrow> int \<Rightarrow> int \<Rightarrow> error + string" where
  "delete_column html_content table_index column_position =
     (let tables = finditer table_groups_re html_content
      in if table_index \<ge> int (length tables) then Inl TableIndexOutOfRange
         else
           (case py_index tables table_index of
              None \<Rightarrow> Inl IndexError
            | Some target_table \<Rightarrow>
                (let table_start = group (m_groups target_table) 1;
                     table_content = group (m_groups target_table) 2;
                     table_end = group (m_groups target_table) 3
                 in case re_sub_fn_e row_groups_re (delete_column_row column_position)
                           table_content of
                      Inl e \<Rightarrow> Inl e
                    | Inr new_table_content \<Rightarrow>
                        (let new_table = table_start @ new_table_content @ table_end
                         in Inr (take (m_start target_table) html_content @ new_table
                                 @ drop (m_end target_table) html_content)))))"

definition update_table_cell ::
  "string \<Rightarrow> int \<Rightarrow> int \<Rightarrow> int \<Rightarrow> string \<Rightarrow> bool \<Rightarrow> error + string"
where
  "update_table_cell html_content table_index row_index column_index content do_append =
     (let tables = finditer table_re html_content
      in if table_index \<ge> int (length tables) then Inl TableIndexOutOfRange
         else
           (case py_index tables table_index of
              None \<Rightarrow> Inl IndexError
            | Some table_match \<Rightarrow>
                (let table_html = m_text table_match;
                     rows = finditer row_content_re table_html
                 in if row_index \<ge> int (length rows) then Inl RowIndexOutOfRange
                    else
                      (case py_index rows row_index of
                         None \<Rightarrow> Inl IndexError
                       | Some row_match \<Rightarrow>
                           (let row_html = m_text row_match
                            in if contains (lower row_html) ''colspan''
                                  \<or> contains (lower row_html) ''rowspan''
                               then Inl MergedCells
                               else
                                 (let cells = finditer cell_tag_re row_html
                                  in if column_index \<ge> int (length cells)
                                     then Inl ColumnIndexOutOfRange
                                     else
                                       (case py_index cells column_index of
                                          None \<Rightarrow> Inl IndexError
                                        | Some cell_match \<Rightarrow>
                                            (let tag = group (m_groups cell_match) 1;
                                                 attrs = group (m_groups cell_match) 2;
                                                 old_content = group (m_groups cell_match) 3;
                                                 new_content = process_cell_content content;
                                                 final_content =
                                                   (if do_append then old_content @ new_content
                                                    else new_content);
                                                 new_cell =
                                                   ''<'' @ tag @ attrs @ ''>'' @ final_content
                                                   @ ''</'' @ tag @ ''>'';
                                                 new_row_html =
                                                   take (m_start cell_match) row_html @ new_cell
                                                   @ drop (m_end cell_match) row_html;
                                                 new_table_html =
                                                   take (m_start row_match) table_html
                                                   @ new_row_html
                                                   @ drop (m_end row_match) table_html
                                             in Inr (take (m_start table_match) html_content
                                                     @ new_table_html
                                                     @ drop (m_end table_match) html_content)))))))))"

text \<open>The row that \<open>insert_table_row\<close> builds.\<close>

definition build_row :: "string list \<Rightarrow> bool \<Rightarrow> string" where
  "build_row cell_values is_header =
     (let tag = (if is_header then ''th'' else ''td'');
          cells_html =
            concat (map (\<lambda>v. ''<'' @ tag @ ''>'' @ process_cell_content v @ ''</'' @ tag @ ''>'')
                      cell_values)
      in ''<tr>'' @ cells_html @ ''</tr>'')"

text \<open>Where \<open>insert_table_row\<close> puts the row, as an offset into the table's text.\<close>

definition row_insert_pos :: "string \<Rightarrow> rmatch list \<Rightarrow> int \<Rightarrow> error + nat" where
  "row_insert_pos table_html rows row_position =
     (if row_position = 0 then
        (if rows \<noteq> [] then Inr (m_start (hd rows))
         else
           (case re_search tbody_open_re table_html of
              Some tbody_match \<Rightarrow> Inr (m_end tbody_match)
            | None \<Rightarrow>
                (case re_match table_open_re table_html of
                   Some table_tag_match \<Rightarrow> Inr (m_end table_tag_match)
                 | None \<Rightarrow> Inr 0)))
      else if row_position \<ge> int (length rows) then
        (case py_index rows (- 1) of
           None \<Rightarrow> Inl IndexError
         | Some r \<Rightarrow> Inr (m_end r))
      else
        (case py_index rows (row_position - 1) of
           None \<Rightarrow> Inl IndexError
         | Some r \<Rightarrow> Inr (m_end r)))"

definition insert_table_row ::
  "string \<Rightarrow> int \<Rightarrow> int \<Rightarrow> string list \<Rightarrow> bool \<Rightarrow> error + string"
where
  "insert_table_row html_content table_index row_position cell_values is_header =
     (let tables = finditer table_re html_content
      in if table_index \<ge> int (length tables) then Inl TableIndexOutOfRange
         else
           (case py_index tables table_index of
              None \<Rightarrow> Inl IndexError
            | Some table_match \<Rightarrow>
                (let table_html = m_text table_match;
                     rows = finditer row_re table_html
                 in if row_position > int (length rows) then Inl RowIndexOutOfRange
                    else
                      (let new_row = build_row cell_values is_header
                       in case row_insert_pos table_html rows row_position of
                            Inl e \<Rightarrow> Inl e
                          | Inr insert_pos \<Rightarrow>
                              (let new_table_html =
                                     take insert_pos table_html @ new_row
                                     @ drop insert_pos table_html
                               in Inr (take (m_start table_match) html_content
                                       @ new_table_html
                                       @ drop (m_end table_match) html_content))))))"

definition delete_table_row :: "string \<Rightarrow> int \<Rightarrow> int \<Rightarrow> error + string" where
  "delete_table_row html_content table_index row_index =
     (let tables = finditer table_re html_content
      in if table_index \<ge> int (length tables) then Inl TableIndexOutOfRange
         else
           (case py_index tables table_index of
              None \<Rightarrow> Inl IndexError
            | Some table_match \<Rightarrow>
                (let table_html = m_text table_match;
                     rows = finditer row_re table_html
                 in if row_index \<ge> int (length rows) then Inl RowIndexOutOfRange
                    else
                      (case py_index rows row_index of
                         None \<Rightarrow> Inl IndexError
                       | Some row_match \<Rightarrow>
                           (let row_html = m_text row_match
                            in if contains (lower row_html) ''rowspan'' then Inl RowspanCells
                               else
                                 (let new_table_html =
                                        take (m_start row_match) table_html
                                        @ drop (m_end row_match) table_html
                                  in Inr (take (m_start table_match) html_content
                                          @ new_table_html
                                          @ drop (m_end table_match) html_content)))))))"

section \<open>The exact-substring patch\<close>

text \<open>\<open>edit_page\<close>, from the page's text to the text it writes back.\<close>

definition edit_page :: "string \<Rightarrow> string \<Rightarrow> string \<Rightarrow> error + string" where
  "edit_page current_html old_html new_html =
     (if \<not> contains current_html old_html then Inl NoMatch
      else
        (let new_html =
               (if strip new_html \<noteq> [] \<and> \<not> startswith (strip new_html) ''<''
                then markdown_to_confluence new_html else new_html)
         in Inr (replace_first current_html old_html new_html)))"

section \<open>The storage format to Markdown decompiler\<close>

text \<open>\<^verbatim>\<open><NAME[^>]*>(.*?)</NAME>\<close> and \<^verbatim>\<open><NAME>(.*?)</NAME>\<close>, with DOTALL\<close>

definition element_re :: "string \<Rightarrow> regex" where
  "element_re name =
     [Lit (''<'' @ name), Rep (NoneOf ''>'') 0 None True, Lit ''>''
     , Open 1, Rep (NoneOf []) 0 None False, Close 1, Lit (''</'' @ name @ ''>'')]"

definition bare_element_re :: "string \<Rightarrow> regex" where
  "bare_element_re name =
     [Lit (''<'' @ name @ ''>''), Open 1, Rep (NoneOf []) 0 None False, Close 1
     , Lit (''</'' @ name @ ''>'')]"

text \<open>\<^verbatim>\<open><a[^>]*href="([^"]*)"[^>]*>(.*?)</a>\<close>\<close>

definition anchor_re :: regex where
  \<open>anchor_re =
     [Lit ''<a'', Rep (NoneOf ''>'') 0 None True, Lit ''href="''
     , Open 1, Rep (NoneOf ''"'') 0 None True, Close 1, Lit ''"''
     , Rep (NoneOf ''>'') 0 None True, Lit ''>''
     , Open 2, Rep (NoneOf []) 0 None False, Close 2, Lit ''</a>'']\<close>

text \<open>\<^verbatim>\<open><ac:image[^>]*>.*?<ri:url ri:value="([^"]+)"[^>]*/?>.*?</ac:image>\<close>\<close>

definition ac_image_re :: regex where
  \<open>ac_image_re =
     [Lit ''<ac:image'', Rep (NoneOf ''>'') 0 None True, Lit ''>''
     , Rep (NoneOf []) 0 None False, Lit ''<ri:url ri:value="''
     , Open 1, Rep (NoneOf ''"'') 1 None True, Close 1, Lit ''"''
     , Rep (NoneOf ''>'') 0 None True, Rep (AnyOf ''/'') 0 (Some 1) True, Lit ''>''
     , Rep (NoneOf []) 0 None False, Lit ''</ac:image>'']\<close>

text \<open>\<^verbatim>\<open></?[uo]l[^>]*>\<close> and \<^verbatim>\<open><[^>]+>\<close>\<close>

definition list_tag_re :: regex where
  "list_tag_re =
     [Lit ''<'', Rep (AnyOf ''/'') 0 (Some 1) True, Cls (AnyOf ''uo''), Lit ''l''
     , Rep (NoneOf ''>'') 0 None True, Lit ''>'']"

definition any_tag_re :: regex where
  "any_tag_re = [Lit ''<'', Rep (NoneOf ''>'') 1 None True, Lit ''>'']"

text \<open>
  \<^verbatim>\<open><ac:structured-macro[^>]*ac:name="NAME"[^>]*>.*?<ac:plain-text-body><!\[CDATA\[(.*?)\]\]></ac:plain-text-body></ac:structured-macro>\<close>
\<close>

definition macro_re :: "string \<Rightarrow> regex" where
  \<open>macro_re name =
     [Lit ''<ac:structured-macro'', Rep (NoneOf ''>'') 0 None True
     , Lit (''ac:name="'' @ name @ ''"''), Rep (NoneOf ''>'') 0 None True, Lit ''>''
     , Rep (NoneOf []) 0 None False, Lit ''<ac:plain-text-body><![CDATA[''
     , Open 1, Rep (NoneOf []) 0 None False, Close 1
     , Lit '']]></ac:plain-text-body></ac:structured-macro>'']\<close>

text \<open>\<^verbatim>\<open>ac:parameter[^>]*ac:name="language"[^>]*>([^<]+)<\<close>\<close>

definition language_re :: regex where
  \<open>language_re =
     [Lit ''ac:parameter'', Rep (NoneOf ''>'') 0 None True, Lit ''ac:name="language"''
     , Rep (NoneOf ''>'') 0 None True, Lit ''>''
     , Open 1, Rep (NoneOf ''<'') 1 None True, Close 1, Lit ''<'']\<close>

text \<open>\<^verbatim>\<open>\n{3,}\<close>\<close>

definition blank_lines_re :: regex where
  "blank_lines_re = [Rep (AnyOf [NL]) 3 None True]"

definition heading_step :: "string \<Rightarrow> nat \<Rightarrow> string" where
  "heading_step content i =
     re_sub (element_re (''h'' @ str_of_nat i))
       [TLit (replicate i (CHR ''#'') @ '' ''), TGrp 1, TLit [NL]] content"

definition convert_table :: "rmatch \<Rightarrow> string" where
  "convert_table m =
     (let table_html = m_text m;
          rows = findall1 row_content_re table_html;
          md_rows =
            concat (map (\<lambda>(i, row).
                      (let cells = findall1 cell_content_re row;
                           cells = map (\<lambda>c. strip (re_sub any_tag_re [] c)) cells
                       in [''| '' @ join '' | '' cells @ '' |'']
                          @ (if i = 0
                             then [''|'' @ join ''|'' (replicate (length cells) ''---'') @ ''|'']
                             else [])))
                    (enumerate 0 rows))
      in join [NL] md_rows @ [NL])"

definition convert_mermaid :: "rmatch \<Rightarrow> string" where
  "convert_mermaid m = ''```mermaid'' @ [NL] @ group (m_groups m) 1 @ [NL] @ ''```'' @ [NL]"

definition convert_plantuml :: "rmatch \<Rightarrow> string" where
  "convert_plantuml m = ''```plantuml'' @ [NL] @ group (m_groups m) 1 @ [NL] @ ''```'' @ [NL]"

definition convert_code :: "rmatch \<Rightarrow> string" where
  "convert_code m =
     (let lang = (case re_search language_re (m_text m) of
                    None \<Rightarrow> []
                  | Some lang_match \<Rightarrow> group (m_groups lang_match) 1);
          code = group (m_groups m) 1
      in ''```'' @ lang @ [NL] @ code @ [NL] @ ''```'' @ [NL])"

text \<open>The rewrites of \<open>confluence_to_markdown\<close> up to the removal of the remaining tags.\<close>

definition storage_rewrites :: "string \<Rightarrow> string" where
  "storage_rewrites html_content =
     (let content = foldl heading_step html_content [6, 5, 4, 3, 2, 1];
          content = re_sub (bare_element_re ''strong'') [TLit ''**'', TGrp 1, TLit ''**''] content;
          content = re_sub (bare_element_re ''b'') [TLit ''**'', TGrp 1, TLit ''**''] content;
          content = re_sub (bare_element_re ''em'') [TLit ''*'', TGrp 1, TLit ''*''] content;
          content = re_sub (bare_element_re ''i'') [TLit ''*'', TGrp 1, TLit ''*''] content;
          content = re_sub (bare_element_re ''code'') [TLit ''`'', TGrp 1, TLit ''`''] content;
          content = re_sub anchor_re [TLit ''['', TGrp 2, TLit '']('', TGrp 1, TLit '')''] content;
          content = re_sub ac_image_re [TLit ''![]('', TGrp 1, TLit '')''] content;
          content = re_sub (element_re ''li'') [TLit ''- '', TGrp 1, TLit [NL]] content;
          content = re_sub list_tag_re [] content;
          content = re_sub (element_re ''blockquote'') [TLit ''> '', TGrp 1, TLit [NL]] content;
          content = re_sub_fn table_re convert_table content;
          content = re_sub_fn (macro_re ''mermaid-macro'') convert_mermaid content;
          content = re_sub_fn (macro_re ''plantuml'') convert_plantuml content;
          content = re_sub_fn (macro_re ''code'') convert_code content;
          content = re_sub (element_re ''p'') [TGrp 1, TLit [NL]] content
      in re_sub any_tag_re [] content)"

text \<open>
  \<open>confluence_to_markdown\<close>. The decoding of the entities, \<open>html.unescape\<close> of the
  standard library, is the parameter \<open>unescape\<close>.
\<close>

definition confluence_to_markdown :: "(string \<Rightarrow> string) \<Rightarrow> string \<Rightarrow> string" where
  "confluence_to_markdown unescape html_content =
     (let content = storage_rewrites html_content;
          content = unescape content;
          content = re_sub blank_lines_re [TLit [NL, NL]] content
      in strip content)"

section \<open>Properties stated below\<close>

text \<open>
  \<open>framed doc table_index doc'\<close>: the table that \<open>table_index\<close> selects in \<open>doc\<close> spans
  the offsets from \<open>s\<close> to \<open>e\<close>, and \<open>doc'\<close> has the same \<open>s\<close> characters before it and
  the same \<open>length doc - e\<close> characters after it as \<open>doc\<close>.
\<close>

definition framed :: "string \<Rightarrow> int \<Rightarrow> string \<Rightarrow> bool" where
  "framed doc table_index doc' =
     (case py_index (table_spans doc) table_index of
        None \<Rightarrow> False
      | Some (s, e, txt) \<Rightarrow>
          s < e \<and> e \<le> length doc \<and> s + (length doc - e) \<le> length doc'
          \<and> take s doc' = take s doc
          \<and> drop (length doc' - (length doc - e)) doc' = drop e doc)"

text \<open>
  The number of line breaks at the start of a text, and a text without three line
  breaks in a row.
\<close>

definition lead :: "string \<Rightarrow> nat" where
  "lead s = length (takeWhile (\<lambda>c. c = NL) s)"

definition no_blank_run :: "string \<Rightarrow> bool" where
  "no_blank_run s = (\<forall>pre post. s \<noteq> pre @ [NL, NL, NL] @ post)"




section \<open>Example documents\<close>

text \<open>A table with a banner row over three columns.\<close>

definition banner_doc :: string where
  \<open>banner_doc =
     ''<p>x</p><table><tbody><tr><th colspan="3">T</th></tr>''
     @ ''<tr><td>a</td><td>b</td><td>c</td></tr></tbody></table><p>y</p>''\<close>

text \<open>A grid of two rows and two columns, the rows on two lines.\<close>

definition grid_doc :: string where
  "grid_doc =
     ''<p>x</p><table><tbody><tr><th>A</th><th>B</th></tr>'' @ [NL]
     @ ''<tr><td>1</td><td>2</td></tr></tbody></table><p>y</p>''"

text \<open>A grid whose first cell shows the word \<open>Colspan\<close>.\<close>

definition word_doc :: string where
  "word_doc = ''<table><tbody><tr><td>Colspan notes</td><td>x</td></tr></tbody></table>''"

text \<open>A table whose first row has a cell over two rows.\<close>

definition rowspan_doc :: string where
  \<open>rowspan_doc =
     ''<table><tbody><tr><td rowspan="2">a</td><td>b</td></tr><tr><td>c</td></tr></tbody></table>''\<close>

text \<open>A table without rows, with and without a \<open>tbody\<close> element.\<close>

definition empty_tbody_doc :: string where
  \<open>empty_tbody_doc = ''<p>x</p><table class="t"><tbody></tbody></table>''\<close>

definition empty_table_doc :: string where
  \<open>empty_table_doc = ''<p>x</p><table class="t"></table>''\<close>

section \<open>Properties of the matcher\<close>

text \<open>A match consumes a prefix of the text, so every match lies inside the text.\<close>

lemma run_suffix: "run r prev rest g = Some (rest', g') \<Longrightarrow> suffix rest' rest"
proof (induction r prev rest g arbitrary: rest' g' rule: run.induct)
  case (2 w r prev rest g)
  then have "suffix rest' (drop (length w) rest)" by (auto split: if_splits)
  then show ?case using suffix_drop suffix_order.trans by blast
next
  case (4 c r prev x xs g)
  then show ?case by (auto split: if_splits intro: suffix_ConsI)
next
  case (6 c lo hi greedy r prev x xs g)
  then show ?case by (auto split: if_splits intro: suffix_ConsI)
next
  case (8 c hi greedy r prev x xs g)
  then show ?case by (auto split: if_splits option.splits intro: suffix_ConsI)
next
  case (10 n r prev rest g)
  then show ?case by (auto split: option.splits)
next
  case (11 n r prev rest g)
  then obtain w where w: "map_of (closed g) n = Some w" "startswith rest w"
      "run r (last_of prev w) (drop (length w) rest) g = Some (rest', g')"
    by (auto split: option.splits if_splits)
  with 11 have "suffix rest' (drop (length w) rest)" by auto
  then show ?case using suffix_drop suffix_order.trans by blast
qed (auto split: if_splits)

lemma run_length: "run r prev rest g = Some (rest', g') \<Longrightarrow> length rest' \<le> length rest"
  using run_suffix suffix_length_le by blast

lemma run_drop: "run r prev rest g = Some (rest', g') \<Longrightarrow> rest' = drop (length rest - length rest') rest"
  using run_suffix by (fastforce simp: suffix_def)

lemma match_at_bounds:
  assumes "match_at r pos prev rest = Some m"
  shows "m_start m = pos" "pos < m_end m" "m_end m \<le> pos + length rest"
    "m_text m = take (m_end m - pos) rest"
  using assms run_length[of r prev rest no_groups]
  by (auto simp: match_at_def Let_def split: option.splits if_splits)

lemma finditer_from_bounds:
  "m \<in> set (finditer_from r pos prev rest) \<Longrightarrow>
     pos \<le> m_start m \<and> m_start m < m_end m \<and> m_end m \<le> pos + length rest
     \<and> m_text m = take (m_end m - m_start m) (drop (m_start m - pos) rest)"
proof (induction r pos prev rest rule: finditer_from.induct)
  case (1 r pos prev)
  then show ?case by simp
next
  case (2 r pos prev x xs)
  show ?case
  proof (cases "match_at r pos prev (x # xs)")
    case None
    with 2 have mem: "m \<in> set (finditer_from r (Suc pos) (Some x) xs)" by simp
    note ih = 2(1)[OF None mem]
    then have "m_start m - pos = Suc (m_start m - Suc pos)" by arith
    with ih show ?thesis by simp
  next
    case (Some m0)
    note b = match_at_bounds[OF Some]
    from 2(3) Some consider "m = m0"
      | "m \<in> set (finditer_from r (m_end m0) (last_of prev (m_text m0))
                    (drop (Suc (m_end m0 - Suc pos)) (x # xs)))"
      by auto
    then show ?thesis
    proof cases
      case 1
      with b show ?thesis by auto
    next
      case 2
      note ih = "2.IH"(2)[OF Some 2]
      from b have e: "Suc (m_end m0 - Suc pos) = m_end m0 - pos" by arith
      from ih b have s: "m_start m - m_end m0 + (m_end m0 - pos) = m_start m - pos" by arith
      from ih have "m_text m = take (m_end m - m_start m) (drop (m_start m - pos) (x # xs))"
        unfolding e drop_drop s by simp
      moreover from ih b have "pos \<le> m_start m" "m_start m < m_end m"
        "m_end m \<le> pos + length (x # xs)" unfolding e by auto
      ultimately show ?thesis by blast
    qed
  qed
qed

lemma finditer_bounds:
  assumes "m \<in> set (finditer r s)"
  shows "m_start m < m_end m" "m_end m \<le> length s"
    "m_text m = take (m_end m - m_start m) (drop (m_start m) s)"
  using finditer_from_bounds[of m r 0 None s] assms by (auto simp: finditer_def)

lemma py_index_mem: "py_index xs i = Some x \<Longrightarrow> x \<in> set xs"
  by (auto simp: py_index_def split: if_splits)

lemma py_index_range: "py_index xs i = Some x \<Longrightarrow> i < int (length xs)"
  by (auto simp: py_index_def split: if_splits)

lemma py_index_nat: "i < length xs \<Longrightarrow> py_index xs (int i) = Some (xs ! i)"
  by (simp add: py_index_def)

text \<open>Group markers do not change where a pattern matches.\<close>

lemma first_some_fst:
  "map_option fst a = map_option fst a' \<Longrightarrow>
   (a = None \<Longrightarrow> map_option fst b = map_option fst b') \<Longrightarrow>
   map_option fst (case a of Some res \<Rightarrow> Some res | None \<Rightarrow> b)
   = map_option fst (case a' of Some res \<Rightarrow> Some res | None \<Rightarrow> b')"
  by (cases a; cases a'; simp)

lemma run_erase:
  "groups_ok (map fst (opened g)) r \<Longrightarrow>
   map_option fst (run r prev rest g) = map_option fst (run (erase r) prev rest g')"
proof (induction r prev rest g arbitrary: g' rule: run.induct)
  case (8 c hi greedy r prev x xs g)
  let ?more = "\<lambda>r g. if in_class c x \<and> may_take hi
                      then run (Rep c 0 (dec_max hi) greedy # r) (Some x) xs g else None"
  from "8.prems" have ok: "groups_ok (map fst (opened g)) r"
    "groups_ok (map fst (opened g)) (Rep c 0 (dec_max hi) greedy # r)" by simp_all
  show ?case
  proof (cases greedy)
    case True
    then have eq: "greedy = True" by simp
    have m: "map_option fst (?more r g) = map_option fst (?more (erase r) g')"
      using "8.IH"(1)[OF True _ ok(2), of g'] by simp
    have k: "?more r g = None \<Longrightarrow>
        map_option fst (run r prev (x # xs) g) = map_option fst (run (erase r) prev (x # xs) g')"
      using "8.IH"(2)[OF True _ ok(1), of g'] by simp
    from first_some_fst[OF m k] show ?thesis unfolding eq by simp
  next
    case False
    then have eq: "greedy = False" by simp
    have k: "map_option fst (run r prev (x # xs) g) = map_option fst (run (erase r) prev (x # xs) g')"
      using "8.IH"(3)[OF False ok(1), of g'] by simp
    have m: "run r prev (x # xs) g = None \<Longrightarrow>
        map_option fst (?more r g) = map_option fst (?more (erase r) g')"
      using "8.IH"(4)[OF False _ _ ok(2), of g'] by simp
    from first_some_fst[OF k m] show ?thesis unfolding eq by simp
  qed
next
  case (10 n r prev rest g)
  then obtain start where "map_of (opened g) n = Some start"
    by (cases "map_of (opened g) n") (auto simp: map_of_eq_None_iff)
  with 10 show ?case by auto
qed auto

lemma match_at_erase:
  assumes "groups_ok [] r"
  shows "map_option span (match_at r pos prev rest) = map_option span (match_at (erase r) pos prev rest)"
proof -
  have "map_option fst (run r prev rest no_groups) = map_option fst (run (erase r) prev rest no_groups)"
    using assms by (intro run_erase) (simp add: no_groups_def)
  then show ?thesis
    by (cases "run r prev rest no_groups"; cases "run (erase r) prev rest no_groups")
       (auto simp: match_at_def span_def Let_def)
qed

lemma finditer_from_erase:
  "groups_ok [] r \<Longrightarrow>
   map span (finditer_from r pos prev rest) = map span (finditer_from (erase r) pos prev rest)"
proof (induction r pos prev rest rule: finditer_from.induct)
  case (1 r pos prev)
  show ?case by simp
next
  case (2 r pos prev x xs)
  note e = match_at_erase[OF "2.prems", of pos prev "x # xs"]
  show ?case
  proof (cases "match_at r pos prev (x # xs)")
    case None
    from None e have "match_at (erase r) pos prev (x # xs) = None"
      by (cases "match_at (erase r) pos prev (x # xs)") auto
    with None 2 show ?thesis by simp
  next
    case (Some m)
    with e obtain m' where m': "match_at (erase r) pos prev (x # xs) = Some m'" "span m = span m'"
      by (cases "match_at (erase r) pos prev (x # xs)") auto
    then have "m_end m = m_end m'" "m_text m = m_text m'" by (auto simp: span_def)
    with Some m' "2.IH"(2)[OF Some "2.prems"] show ?thesis by simp
  qed
qed

lemma finditer_erase:
  "groups_ok [] r \<Longrightarrow> map span (finditer r s) = map span (finditer (erase r) s)"
  by (simp add: finditer_def finditer_from_erase)

lemma table_groups_spans: "map span (finditer table_groups_re doc) = table_spans doc"
proof -
  have "groups_ok [] table_groups_re" "erase table_groups_re = table_re"
    by (simp_all add: table_groups_re_def table_re_def)
  then show ?thesis using finditer_erase[of table_groups_re doc] by (simp add: table_spans_def)
qed

lemma row_groups_spans: "map span (finditer row_groups_re t) = row_spans t"
proof -
  have "groups_ok [] row_groups_re" "erase row_groups_re = row_re"
    by (simp_all add: row_groups_re_def row_re_def)
  then show ?thesis using finditer_erase[of row_groups_re t] by (simp add: row_spans_def)
qed

lemma row_content_spans: "map span (finditer row_content_re t) = row_spans t"
proof -
  have "groups_ok [] row_content_re" "erase row_content_re = row_re"
    by (simp_all add: row_content_re_def row_re_def)
  then show ?thesis using finditer_erase[of row_content_re t] by (simp add: row_spans_def)
qed

lemma py_index_map: "py_index (map f xs) i = map_option f (py_index xs i)"
  by (auto simp: py_index_def intro!: nth_map)








section \<open>The text outside the edited table\<close>

lemma table_located:
  assumes "py_index (finditer table_re doc) ti = Some t"
  shows "py_index (table_spans doc) ti = Some (m_start t, m_end t, m_text t)"
    "m_start t < m_end t" "m_end t \<le> length doc"
    "m_text t = take (m_end t - m_start t) (drop (m_start t) doc)"
  using assms finditer_bounds[OF py_index_mem[OF assms]]
  by (simp_all add: table_spans_def py_index_map span_def)

lemma table_groups_located:
  assumes "py_index (finditer table_groups_re doc) ti = Some t"
  shows "py_index (table_spans doc) ti = Some (m_start t, m_end t, m_text t)"
    "m_start t < m_end t" "m_end t \<le> length doc"
    "m_text t = take (m_end t - m_start t) (drop (m_start t) doc)"
proof -
  have "py_index (map span (finditer table_groups_re doc)) ti = Some (span t)"
    using assms by (simp add: py_index_map)
  then show "py_index (table_spans doc) ti = Some (m_start t, m_end t, m_text t)"
    by (simp add: table_groups_spans span_def)
qed (use finditer_bounds[OF py_index_mem[OF assms]] in simp_all)

lemma framedI:
  assumes "py_index (table_spans doc) ti = Some (s, e, txt)" "s < e" "e \<le> length doc"
  shows "framed doc ti (take s doc @ mid @ drop e doc)"
  using assms by (simp add: framed_def min_def)

lemma insert_column_framed:
  "insert_column doc ti cp cn dv hs = Inr doc' \<Longrightarrow> framed doc ti doc'"
  unfolding insert_column_def Let_def
  by (auto simp del: append_assoc split: if_splits option.splits sum.splits
      intro!: framedI table_groups_located)

lemma delete_column_framed:
  "delete_column doc ti cp = Inr doc' \<Longrightarrow> framed doc ti doc'"
  unfolding delete_column_def Let_def
  by (auto simp del: append_assoc split: if_splits option.splits sum.splits
      intro!: framedI table_groups_located)

lemma update_table_cell_framed:
  "update_table_cell doc ti ri ci content ap = Inr doc' \<Longrightarrow> framed doc ti doc'"
  unfolding update_table_cell_def Let_def
  by (auto simp del: append_assoc split: if_splits option.splits sum.splits
      intro!: framedI table_located)

lemma insert_table_row_framed:
  "insert_table_row doc ti rp vs h = Inr doc' \<Longrightarrow> framed doc ti doc'"
  unfolding insert_table_row_def Let_def
  by (auto simp del: append_assoc split: if_splits option.splits sum.splits
      intro!: framedI table_located)

lemma delete_table_row_framed:
  "delete_table_row doc ti ri = Inr doc' \<Longrightarrow> framed doc ti doc'"
  unfolding delete_table_row_def Let_def
  by (auto simp del: append_assoc split: if_splits option.splits sum.splits
      intro!: framedI table_located)

text \<open>
  C1. When one of the five table operations (\<open>insert_column\<close>, \<open>delete_column\<close>,
  \<open>update_table_cell\<close>, \<open>insert_table_row\<close>, \<open>delete_table_row\<close>) returns a document,
  that document is the input document at every position before the start and after the
  end of the table that the table index selects: only the text within the span of that
  table may differ.
\<close>

theorem table_edits_keep_outside:
  "(insert_column doc ti cp cn dv hs = Inr doc' \<longrightarrow> framed doc ti doc')
   \<and> (delete_column doc ti cp = Inr doc' \<longrightarrow> framed doc ti doc')
   \<and> (update_table_cell doc ti ri ci content ap = Inr doc' \<longrightarrow> framed doc ti doc')
   \<and> (insert_table_row doc ti rp vs h = Inr doc' \<longrightarrow> framed doc ti doc')
   \<and> (delete_table_row doc ti ri = Inr doc' \<longrightarrow> framed doc ti doc')"
  by (intro conjI impI)
     (erule insert_column_framed delete_column_framed update_table_cell_framed
        insert_table_row_framed delete_table_row_framed)+

theorem table_edits_keep_outside_witness:
  \<open>insert_column grid_doc 0 1 ''C'' [] None
     = Inr (''<p>x</p><table><tbody><tr><th>A</th><th style="">C</th><th>B</th></tr>''
            @ [NL] @ ''<tr><td>1</td><td></td><td>2</td></tr></tbody></table><p>y</p>'')
   \<and> framed grid_doc 0
        (''<p>x</p><table><tbody><tr><th>A</th><th style="">C</th><th>B</th></tr>''
         @ [NL] @ ''<tr><td>1</td><td></td><td>2</td></tr></tbody></table><p>y</p>'')
   \<and> delete_column grid_doc 0 0
       = Inr (''<p>x</p><table><tbody><tr><th>B</th></tr>'' @ [NL]
              @ ''<tr><td>2</td></tr></tbody></table><p>y</p>'')
   \<and> framed grid_doc 0
        (''<p>x</p><table><tbody><tr><th>B</th></tr>'' @ [NL]
         @ ''<tr><td>2</td></tr></tbody></table><p>y</p>'')
   \<and> update_table_cell grid_doc 0 1 0 ''z'' False
       = Inr (''<p>x</p><table><tbody><tr><th>A</th><th>B</th></tr>'' @ [NL]
              @ ''<tr><td>z</td><td>2</td></tr></tbody></table><p>y</p>'')
   \<and> framed grid_doc 0
        (''<p>x</p><table><tbody><tr><th>A</th><th>B</th></tr>'' @ [NL]
         @ ''<tr><td>z</td><td>2</td></tr></tbody></table><p>y</p>'')
   \<and> insert_table_row grid_doc 0 2 [''u'', ''v''] False
       = Inr (''<p>x</p><table><tbody><tr><th>A</th><th>B</th></tr>'' @ [NL]
              @ ''<tr><td>1</td><td>2</td></tr><tr><td>u</td><td>v</td></tr></tbody></table><p>y</p>'')
   \<and> framed grid_doc 0
        (''<p>x</p><table><tbody><tr><th>A</th><th>B</th></tr>'' @ [NL]
         @ ''<tr><td>1</td><td>2</td></tr><tr><td>u</td><td>v</td></tr></tbody></table><p>y</p>'')
   \<and> delete_table_row grid_doc 0 1
       = Inr (''<p>x</p><table><tbody><tr><th>A</th><th>B</th></tr>'' @ [NL]
              @ ''</tbody></table><p>y</p>'')
   \<and> framed grid_doc 0
        (''<p>x</p><table><tbody><tr><th>A</th><th>B</th></tr>'' @ [NL]
         @ ''</tbody></table><p>y</p>'')\<close>
  (is "?a = Inr ?a' \<and> _ \<and> ?b = Inr ?b' \<and> _ \<and> ?c = Inr ?c' \<and> _ \<and> ?d = Inr ?d' \<and> _ \<and> ?e = Inr ?e' \<and> _")
proof -
  have a: "?a = Inr ?a'" by code_simp
  have b: "?b = Inr ?b'" by code_simp
  have c: "?c = Inr ?c'" by code_simp
  have d: "?d = Inr ?d'" by code_simp
  have e: "?e = Inr ?e'" by code_simp
  note t = table_edits_keep_outside[of grid_doc 0]
  from a t[of 1 "''C''" "[]" None ?a'] have fa: "framed grid_doc 0 ?a'" by blast
  from b t[of _ _ _ _ ?b' 0] have fb: "framed grid_doc 0 ?b'" by blast
  from c t[of _ _ _ _ ?c' 1 0 "''z''" False] have fc: "framed grid_doc 0 ?c'" by blast
  from d t[of _ _ _ _ ?d' _ _ _ _ 2 "[''u'', ''v'']" False] have fd: "framed grid_doc 0 ?d'" by blast
  from e t[of _ _ _ _ ?e' 1] have fe: "framed grid_doc 0 ?e'" by blast
  from a b c d e fa fb fc fd fe show ?thesis by blast
qed

section \<open>Index checks and merged rows\<close>


lemma length_rows: "length (finditer row_re t) = length (row_spans t)"
  "length (finditer row_content_re t) = length (row_spans t)"
  "length (finditer row_groups_re t) = length (row_spans t)"
  using arg_cong[OF row_content_spans[of t], of length] arg_cong[OF row_groups_spans[of t], of length]
  by (simp_all add: row_spans_def)

lemma table_at:
  assumes "py_index (table_spans doc) ti = Some (s, e, tbl)"
  obtains t where "py_index (finditer table_re doc) ti = Some t"
    "m_start t = s" "m_end t = e" "m_text t = tbl"
  using assms by (auto simp: table_spans_def py_index_map span_def)


lemma row_at:
  assumes "py_index (row_spans tbl) ri = Some (rs, re, row)"
  obtains r where "py_index (finditer row_re tbl) ri = Some r"
    "m_start r = rs" "m_end r = re" "m_text r = row"
  using assms by (auto simp: row_spans_def py_index_map span_def)

lemma row_content_at:
  assumes "py_index (row_spans tbl) ri = Some (rs, re, row)"
  obtains r where "py_index (finditer row_content_re tbl) ri = Some r"
    "m_start r = rs" "m_end r = re" "m_text r = row"
  using assms unfolding row_content_spans[symmetric] by (auto simp: py_index_map span_def)


lemma row_index_refused:
  assumes "py_index (table_spans doc) ti = Some (s, e, tbl)"
  shows "int (length (row_spans tbl)) \<le> ri \<Longrightarrow>
           update_table_cell doc ti ri ci content ap = Inl RowIndexOutOfRange"
    "int (length (row_spans tbl)) \<le> ri \<Longrightarrow> delete_table_row doc ti ri = Inl RowIndexOutOfRange"
    "int (length (row_spans tbl)) < rp \<Longrightarrow>
           insert_table_row doc ti rp vs h = Inl RowIndexOutOfRange"
proof -
  from assms obtain t where t: "py_index (finditer table_re doc) ti = Some t" "m_text t = tbl"
    by (rule table_at)
  from py_index_range[OF t(1)] have "\<not> int (length (finditer table_re doc)) \<le> ti" by simp
  with t show "int (length (row_spans tbl)) \<le> ri \<Longrightarrow>
           update_table_cell doc ti ri ci content ap = Inl RowIndexOutOfRange"
    "int (length (row_spans tbl)) \<le> ri \<Longrightarrow> delete_table_row doc ti ri = Inl RowIndexOutOfRange"
    "int (length (row_spans tbl)) < rp \<Longrightarrow>
           insert_table_row doc ti rp vs h = Inl RowIndexOutOfRange"
    by (simp_all add: update_table_cell_def delete_table_row_def insert_table_row_def length_rows)
qed

lemma update_table_cell_row:
  assumes "py_index (table_spans doc) ti = Some (s, e, tbl)"
    "py_index (row_spans tbl) ri = Some (rs, re, row)"
  obtains t r where "py_index (finditer table_re doc) ti = Some t" "m_text t = tbl"
    "m_start t = s" "m_end t = e"
    "py_index (finditer row_content_re tbl) ri = Some r" "m_text r = row"
    "m_start r = rs" "m_end r = re"
    "\<not> int (length (finditer table_re doc)) \<le> ti"
    "\<not> int (length (finditer row_content_re tbl)) \<le> ri"
proof -
  from assms(1) obtain t where t: "py_index (finditer table_re doc) ti = Some t" "m_text t = tbl"
    "m_start t = s" "m_end t = e"
    by (rule table_at)
  from assms(2) obtain r where r: "py_index (finditer row_content_re tbl) ri = Some r" "m_text r = row"
     "m_start r = rs" "m_end r = re"
    by (rule row_content_at)
  from py_index_range[OF t(1)] py_index_range[OF r(1)] t r that show ?thesis by simp
qed

lemma delete_table_row_row:
  assumes "py_index (table_spans doc) ti = Some (s, e, tbl)"
    "py_index (row_spans tbl) ri = Some (rs, re, row)"
  obtains t r where "py_index (finditer table_re doc) ti = Some t" "m_text t = tbl"
    "m_start t = s" "m_end t = e"
    "py_index (finditer row_re tbl) ri = Some r" "m_text r = row"
    "m_start r = rs" "m_end r = re"
    "\<not> int (length (finditer table_re doc)) \<le> ti"
    "\<not> int (length (finditer row_re tbl)) \<le> ri"
proof -
  from assms(1) obtain t where t: "py_index (finditer table_re doc) ti = Some t" "m_text t = tbl"
    "m_start t = s" "m_end t = e"
    by (rule table_at)
  from assms(2) obtain r where r: "py_index (finditer row_re tbl) ri = Some r" "m_text r = row"
     "m_start r = rs" "m_end r = re"
    by (rule row_at)
  from py_index_range[OF t(1)] py_index_range[OF r(1)] t r that show ?thesis by simp
qed


lemma merged_row_refused:
  assumes "py_index (table_spans doc) ti = Some (s, e, tbl)"
    "py_index (row_spans tbl) ri = Some (rs, re, row)"
  shows "update_table_cell doc ti ri ci content ap = Inl MergedCells
         \<longleftrightarrow> contains (lower row) ''colspan'' \<or> contains (lower row) ''rowspan''"
proof -
  from assms(1,2) obtain t r where "py_index (finditer table_re doc) ti = Some t" "m_text t = tbl"
    "py_index (finditer row_content_re tbl) ri = Some r" "m_text r = row"
    "\<not> int (length (finditer table_re doc)) \<le> ti"
    "\<not> int (length (finditer row_content_re tbl)) \<le> ri"
    by (rule update_table_cell_row)
  then show ?thesis
    by (auto simp: update_table_cell_def Let_def split: option.splits)
qed

lemma rowspan_row_refused:
  assumes "py_index (table_spans doc) ti = Some (s, e, tbl)"
    "py_index (row_spans tbl) ri = Some (rs, re, row)"
    "contains (lower row) ''rowspan''"
  shows "delete_table_row doc ti ri = Inl RowspanCells"
proof -
  from assms(1,2) obtain t r where "py_index (finditer table_re doc) ti = Some t" "m_text t = tbl"
    "py_index (finditer row_re tbl) ri = Some r" "m_text r = row"
    "\<not> int (length (finditer table_re doc)) \<le> ti"
    "\<not> int (length (finditer row_re tbl)) \<le> ri"
    by (rule delete_table_row_row)
  with assms(3) show ?thesis by (simp add: delete_table_row_def)
qed












text \<open>
  C6. On a row of a located table whose text contains \<open>colspan\<close> or \<open>rowspan\<close>, in any
  case of the letters, \<open>update_table_cell\<close> answers with the merged-cell failure, and
  on a row whose text contains \<open>rowspan\<close>, \<open>delete_table_row\<close> answers with the
  rowspan failure: no document is written.
\<close>

theorem merged_rows_are_refused:
  assumes "py_index (table_spans doc) ti = Some (s, e, tbl)"
    and "py_index (row_spans tbl) ri = Some (rs, re, row)"
  shows "(contains (lower row) ''colspan'' \<or> contains (lower row) ''rowspan'' \<longrightarrow>
            update_table_cell doc ti ri ci content ap = Inl MergedCells)
         \<and> (contains (lower row) ''rowspan'' \<longrightarrow> delete_table_row doc ti ri = Inl RowspanCells)"
  using merged_row_refused[OF assms] rowspan_row_refused[OF assms] by blast

theorem merged_rows_are_refused_witness:
  \<open>py_index (table_spans rowspan_doc) 0 = Some (0, 90, rowspan_doc)
   \<and> py_index (row_spans rowspan_doc) 0
       = Some (14, 55, ''<tr><td rowspan="2">a</td><td>b</td></tr>'')
   \<and> contains (lower ''<tr><td rowspan="2">a</td><td>b</td></tr>'') ''rowspan''
   \<and> update_table_cell rowspan_doc 0 0 1 ''z'' False = Inl MergedCells
   \<and> delete_table_row rowspan_doc 0 0 = Inl RowspanCells\<close>
  (is "?h1 \<and> ?h2 \<and> ?h3 \<and> ?c1 \<and> ?c2")
proof -
  have h1: ?h1 by code_simp
  have h2: ?h2 by code_simp
  have h3: ?h3 by code_simp
  from merged_rows_are_refused[OF h1 h2, of 1 "''z''" False] h3 have "?c1 \<and> ?c2" by blast
  with h1 h2 h3 show ?thesis by blast
qed

text \<open>
  C10. \<open>update_table_cell\<close> answers with the merged-cell failure exactly when the text
  of the row, in lower case, contains \<open>colspan\<close> or \<open>rowspan\<close>, wherever they stand:
  the row of \<open>word_doc\<close> has two cells without attributes, the word \<open>Colspan\<close> is
  shown in the first, and the update is refused.
\<close>

theorem merged_test_is_textual:
  assumes "py_index (table_spans doc) ti = Some (s, e, tbl)"
    and "py_index (row_spans tbl) ri = Some (rs, re, row)"
  shows "update_table_cell doc ti ri ci content ap = Inl MergedCells
         \<longleftrightarrow> contains (lower row) ''colspan'' \<or> contains (lower row) ''rowspan''"
  using assms by (rule merged_row_refused)

theorem merged_test_is_textual_witness:
  "py_index (table_spans word_doc) 0 = Some (0, 71, word_doc)
   \<and> py_index (row_spans word_doc) 0
       = Some (14, 55, ''<tr><td>Colspan notes</td><td>x</td></tr>'')
   \<and> map (\<lambda>m. (group (m_groups m) 1, group (m_groups m) 2, group (m_groups m) 3))
         (finditer cell_tag_re ''<tr><td>Colspan notes</td><td>x</td></tr>'')
       = [(''td'', [], ''Colspan notes''), (''td'', [], ''x'')]
   \<and> contains (lower ''<tr><td>Colspan notes</td><td>x</td></tr>'') ''colspan''
   \<and> update_table_cell word_doc 0 0 1 ''z'' False = Inl MergedCells"
  (is "?h1 \<and> ?h2 \<and> ?h3 \<and> ?h4 \<and> ?c")
proof -
  have h1: ?h1 by code_simp
  have h2: ?h2 by code_simp
  have h3: ?h3 by code_simp
  have h4: ?h4 by code_simp
  from merged_test_is_textual[OF h1 h2, of 1 "''z''" False] h4 have ?c by blast
  with h1 h2 h3 h4 show ?thesis by blast
qed

section \<open>Where a new row is put\<close>

lemma search_from_bounds:
  "search_from r pos prev rest = Some m \<Longrightarrow> pos \<le> m_start m \<and> m_end m \<le> pos + length rest"
proof (induction r pos prev rest rule: search_from.induct)
  case (1 r pos prev)
  then show ?case by simp
next
  case (2 r pos prev x xs)
  show ?case
  proof (cases "match_at r pos prev (x # xs)")
    case None
    with 2 show ?thesis by auto
  next
    case (Some m0)
    with 2 have "m = m0" by simp
    with match_at_bounds[OF Some] show ?thesis by simp
  qed
qed

lemma re_search_bounds: "re_search r s = Some m \<Longrightarrow> m_end m \<le> length s"
  using search_from_bounds[of r 0 None s m] by (simp add: re_search_def)

lemma re_match_bounds: "re_match r s = Some m \<Longrightarrow> m_end m \<le> length s"
  using match_at_bounds(3)[of r 0 None s m] by (simp add: re_match_def)

lemma splice_inside:
  assumes "tbl = take (e - s) (drop s doc)" "s \<le> e" "e \<le> length doc" "p \<le> length tbl"
  shows "take s doc @ (take p tbl @ x @ drop p tbl) @ drop e doc
         = take (s + p) doc @ x @ drop (s + p) doc"
proof -
  have d: "doc = take s doc @ tbl @ drop e doc"
    using assms(1-3)
    by (metis add_diff_inverse_nat append_take_drop_id drop_drop leD add.commute)
  have l: "length (take s doc) = s" using assms(2,3) by simp
  have "take (s + p) doc = take (s + p) (take s doc @ tbl @ drop e doc)" using d by simp
  also have "\<dots> = take s doc @ take p tbl" using l assms(4) by (simp add: take_add)
  finally have t: "take (s + p) doc = take s doc @ take p tbl" .
  have "drop (s + p) doc = drop (s + p) (take s doc @ tbl @ drop e doc)" using d by simp
  also have "\<dots> = drop p tbl @ drop e doc" using l assms(4) by simp
  finally have "drop (s + p) doc = drop p tbl @ drop e doc" .
  with t show ?thesis by simp
qed

lemma insert_table_row_at:
  assumes "py_index (table_spans doc) ti = Some (s, e, tbl)"
    and "\<not> int (length (row_spans tbl)) < rp"
    and "row_insert_pos tbl (finditer row_re tbl) rp = Inr p"
    and "p \<le> length tbl"
  shows "insert_table_row doc ti rp vs h
         = Inr (take (s + p) doc @ build_row vs h @ drop (s + p) doc)"
proof -
  from assms(1) obtain t where t: "py_index (finditer table_re doc) ti = Some t"
    "m_start t = s" "m_end t = e" "m_text t = tbl"
    by (rule table_at)
  from table_located[OF t(1)] t have b: "s < e" "e \<le> length doc"
    "tbl = take (e - s) (drop s doc)" by simp_all
  from py_index_range[OF t(1)] have "\<not> int (length (finditer table_re doc)) \<le> ti" by simp
  with t assms(2,3) have "insert_table_row doc ti rp vs h
      = Inr (take s doc @ (take p tbl @ build_row vs h @ drop p tbl) @ drop e doc)"
    by (simp add: insert_table_row_def length_rows)
  also have "take s doc @ (take p tbl @ build_row vs h @ drop p tbl) @ drop e doc
      = take (s + p) doc @ build_row vs h @ drop (s + p) doc"
    using b assms(4) by (intro splice_inside) simp_all
  finally show ?thesis .
qed

lemma row_nth:
  assumes "k < length (row_spans tbl)" "row_spans tbl ! k = (rs, re, row)"
  shows "m_start (finditer row_re tbl ! k) = rs" "m_end (finditer row_re tbl ! k) = re"
    "rs < re" "re \<le> length tbl" "k < length (finditer row_re tbl)"
proof -
  from assms(1) have k: "k < length (finditer row_re tbl)" by (simp add: row_spans_def)
  with assms(2) show "m_start (finditer row_re tbl ! k) = rs" "m_end (finditer row_re tbl ! k) = re"
    by (simp_all add: row_spans_def span_def)
  with finditer_bounds[OF nth_mem[OF k]] show "rs < re" "re \<le> length tbl" by simp_all
  show "k < length (finditer row_re tbl)" by (rule k)
qed

lemma row_insert_pos_first:
  assumes "row_spans tbl = (rs, re, row) # rows'"
  shows "row_insert_pos tbl (finditer row_re tbl) 0 = Inr rs" "rs \<le> length tbl"
proof -
  from assms have k: "0 < length (row_spans tbl)" "row_spans tbl ! 0 = (rs, re, row)" by simp_all
  note n = row_nth[OF k]
  from n(5) have "finditer row_re tbl \<noteq> []" by auto
  with n(1) show "row_insert_pos tbl (finditer row_re tbl) 0 = Inr rs"
    by (simp add: row_insert_pos_def hd_conv_nth)
  from n show "rs \<le> length tbl" by simp
qed

lemma py_index_last: "xs \<noteq> [] \<Longrightarrow> py_index xs (- 1) = Some (xs ! (length xs - 1))"
proof -
  assume "xs \<noteq> []"
  then obtain n where n: "length xs = Suc n" by (cases xs) auto
  then show ?thesis by (simp add: py_index_def)
qed

lemma py_index_pos: "0 \<le> i \<Longrightarrow> i < int (length xs) \<Longrightarrow> py_index xs i = Some (xs ! nat i)"
  by (simp add: py_index_def)

lemma row_insert_pos_after:
  assumes "0 < rp" "rp \<le> int (length (row_spans tbl))"
    "row_spans tbl ! nat (rp - 1) = (rs, re, row)"
  shows "row_insert_pos tbl (finditer row_re tbl) rp = Inr re" "re \<le> length tbl"
proof -
  from assms(1,2) have k: "nat (rp - 1) < length (row_spans tbl)" by simp
  note n = row_nth[OF k assms(3)]
  let ?rows = "finditer row_re tbl"
  have len: "length ?rows = length (row_spans tbl)" by (simp add: row_spans_def)
  from assms(1) have z: "rp \<noteq> 0" by simp
  show "row_insert_pos tbl ?rows rp = Inr re"
  proof (cases "rp = int (length ?rows)")
    case True
    from n(5) have ne: "?rows \<noteq> []" by auto
    from True have "nat (rp - 1) = length ?rows - 1" by simp
    with py_index_last[OF ne] have "py_index ?rows (- 1) = Some (?rows ! nat (rp - 1))" by simp
    moreover from True have "int (length ?rows) \<le> rp" by simp
    ultimately show ?thesis using z n(2) unfolding row_insert_pos_def by simp
  next
    case False
    with assms(2) len have lt: "\<not> int (length ?rows) \<le> rp" by simp
    from assms(1) lt have "py_index ?rows (rp - 1) = Some (?rows ! nat (rp - 1))"
      by (intro py_index_pos) simp_all
    with z lt n(2) show ?thesis unfolding row_insert_pos_def by simp
  qed
  from n show "re \<le> length tbl" by simp
qed

lemma row_insert_pos_tbody:
  assumes "row_spans tbl = []" "re_search tbody_open_re tbl = Some m"
  shows "row_insert_pos tbl (finditer row_re tbl) 0 = Inr (m_end m)" "m_end m \<le> length tbl"
  using assms re_search_bounds[OF assms(2)] by (simp_all add: row_insert_pos_def row_spans_def)

lemma row_insert_pos_table:
  assumes "row_spans tbl = []" "re_search tbody_open_re tbl = None"
    "re_match table_open_re tbl = Some m"
  shows "row_insert_pos tbl (finditer row_re tbl) 0 = Inr (m_end m)" "m_end m \<le> length tbl"
  using assms re_match_bounds[OF assms(3)] by (simp_all add: row_insert_pos_def row_spans_def)

text \<open>
  C4, as stated, fails: the table of \<open>grid_doc\<close> has two rows, and the row position
  3 is refused instead of appending the row; and at the row position 1 the new row is
  put right after the first row, so that the line break between the two rows stands
  between the new row and the row that was at position 1.
\<close>

theorem insert_table_row_counterexample:
  "length (row_spans (drop 8 (take 97 grid_doc))) = 2
   \<and> insert_table_row grid_doc 0 3 [''u'', ''v''] False = Inl RowIndexOutOfRange
   \<and> insert_table_row grid_doc 0 1 [''u'', ''v''] False
       = Inr (''<p>x</p><table><tbody><tr><th>A</th><th>B</th></tr><tr><td>u</td><td>v</td></tr>''
              @ [NL] @ ''<tr><td>1</td><td>2</td></tr></tbody></table><p>y</p>'')"
  by code_simp

text \<open>
  C4, amended. In a located table that starts at offset \<open>s\<close> of the document,
  \<open>insert_table_row\<close> puts the new row at the start of the first row for the position
  0; right after the end of the row before the position, for a position from 1 to the
  number of rows (so after the last row for the number of rows); it refuses a position
  greater than the number of rows; and in a table without rows it puts the row, for
  the position 0, right after the opening \<open>tbody\<close> tag when there is one and right
  after the opening \<open>table\<close> tag otherwise. The new row has one cell for each value,
  \<open>th\<close> for a header row and \<open>td\<close> otherwise, around the processed value.
\<close>

theorem insert_table_row_position:
  assumes "py_index (table_spans doc) ti = Some (s, e, tbl)"
  shows "(row_spans tbl = (rs, re, row) # rows' \<longrightarrow>
            insert_table_row doc ti 0 vs h
            = Inr (take (s + rs) doc @ build_row vs h @ drop (s + rs) doc))
         \<and> (0 < rp \<and> rp \<le> int (length (row_spans tbl))
            \<and> row_spans tbl ! nat (rp - 1) = (ps, pe, prow) \<longrightarrow>
            insert_table_row doc ti rp vs h
            = Inr (take (s + pe) doc @ build_row vs h @ drop (s + pe) doc))
         \<and> (int (length (row_spans tbl)) < rp \<longrightarrow>
            insert_table_row doc ti rp vs h = Inl RowIndexOutOfRange)
         \<and> (row_spans tbl = [] \<and> re_search tbody_open_re tbl = Some m \<longrightarrow>
            insert_table_row doc ti 0 vs h
            = Inr (take (s + m_end m) doc @ build_row vs h @ drop (s + m_end m) doc))
         \<and> (row_spans tbl = [] \<and> re_search tbody_open_re tbl = None
            \<and> re_match table_open_re tbl = Some m \<longrightarrow>
            insert_table_row doc ti 0 vs h
            = Inr (take (s + m_end m) doc @ build_row vs h @ drop (s + m_end m) doc))
         \<and> build_row vs h
           = ''<tr>''
             @ concat (map (\<lambda>v. ''<'' @ (if h then ''th'' else ''td'') @ ''>''
                                 @ process_cell_content v
                                 @ ''</'' @ (if h then ''th'' else ''td'') @ ''>'') vs)
             @ ''</tr>''"
proof (intro conjI impI; (elim conjE)?)
  assume a: "row_spans tbl = (rs, re, row) # rows'"
  show "insert_table_row doc ti 0 vs h
        = Inr (take (s + rs) doc @ build_row vs h @ drop (s + rs) doc)"
    using row_insert_pos_first[OF a] by (intro insert_table_row_at[OF assms]) simp_all
next
  assume a: "0 < rp" "rp \<le> int (length (row_spans tbl))"
    "row_spans tbl ! nat (rp - 1) = (ps, pe, prow)"
  show "insert_table_row doc ti rp vs h
        = Inr (take (s + pe) doc @ build_row vs h @ drop (s + pe) doc)"
    using row_insert_pos_after[OF a] a(2) by (intro insert_table_row_at[OF assms]) simp_all
next
  assume "int (length (row_spans tbl)) < rp"
  then show "insert_table_row doc ti rp vs h = Inl RowIndexOutOfRange"
    by (rule row_index_refused(3)[OF assms])
next
  assume a: "row_spans tbl = []" "re_search tbody_open_re tbl = Some m"
  show "insert_table_row doc ti 0 vs h
        = Inr (take (s + m_end m) doc @ build_row vs h @ drop (s + m_end m) doc)"
    using row_insert_pos_tbody[OF a] by (intro insert_table_row_at[OF assms]) simp_all
next
  assume a: "row_spans tbl = []" "re_search tbody_open_re tbl = None"
    "re_match table_open_re tbl = Some m"
  show "insert_table_row doc ti 0 vs h
        = Inr (take (s + m_end m) doc @ build_row vs h @ drop (s + m_end m) doc)"
    using row_insert_pos_table[OF a] by (intro insert_table_row_at[OF assms]) simp_all
next
  show "build_row vs h
           = ''<tr>''
             @ concat (map (\<lambda>v. ''<'' @ (if h then ''th'' else ''td'') @ ''>''
                                 @ process_cell_content v
                                 @ ''</'' @ (if h then ''th'' else ''td'') @ ''>'') vs)
             @ ''</tr>''"
    by (simp add: build_row_def)
qed

theorem insert_table_row_position_witness:
  "py_index (table_spans grid_doc) 0 = Some (8, 97, drop 8 (take 97 grid_doc))
   \<and> row_spans (drop 8 (take 97 grid_doc))
       = (14, 43, ''<tr><th>A</th><th>B</th></tr>'') # [(44, 73, ''<tr><td>1</td><td>2</td></tr>'')]
   \<and> insert_table_row grid_doc 0 0 [''u''] True
       = Inr (take (8 + 14) grid_doc @ build_row [''u''] True @ drop (8 + 14) grid_doc)
   \<and> (0::int) < 1 \<and> 1 \<le> int (length (row_spans (drop 8 (take 97 grid_doc))))
   \<and> row_spans (drop 8 (take 97 grid_doc)) ! nat (1 - 1) = (14, 43, ''<tr><th>A</th><th>B</th></tr>'')
   \<and> insert_table_row grid_doc 0 1 [''u''] True
       = Inr (take (8 + 43) grid_doc @ build_row [''u''] True @ drop (8 + 43) grid_doc)
   \<and> int (length (row_spans (drop 8 (take 97 grid_doc)))) < 3
   \<and> insert_table_row grid_doc 0 3 [''u''] True = Inl RowIndexOutOfRange
   \<and> py_index (table_spans empty_tbody_doc) 0 = Some (8, 48, drop 8 empty_tbody_doc)
   \<and> row_spans (drop 8 empty_tbody_doc) = []
   \<and> re_search tbody_open_re (drop 8 empty_tbody_doc)
       = Some \<lparr>m_start = 17, m_end = 24, m_text = ''<tbody>'', m_groups = no_groups\<rparr>
   \<and> insert_table_row empty_tbody_doc 0 0 [''u''] True
       = Inr (take (8 + 24) empty_tbody_doc @ build_row [''u''] True
              @ drop (8 + 24) empty_tbody_doc)
   \<and> py_index (table_spans empty_table_doc) 0 = Some (8, 33, drop 8 empty_table_doc)
   \<and> row_spans (drop 8 empty_table_doc) = []
   \<and> re_search tbody_open_re (drop 8 empty_table_doc) = None
   \<and> re_match table_open_re (drop 8 empty_table_doc)
       = Some \<lparr>m_start = 0, m_end = 17, m_text = take 17 (drop 8 empty_table_doc),
               m_groups = no_groups\<rparr>
   \<and> insert_table_row empty_table_doc 0 0 [''u''] True
       = Inr (take (8 + 17) empty_table_doc @ build_row [''u''] True
              @ drop (8 + 17) empty_table_doc)"
  (is "?t1 \<and> ?r1 \<and> ?c1 \<and> ?p1 \<and> ?p2 \<and> ?p3 \<and> ?c2 \<and> ?q \<and> ?c3
       \<and> ?t2 \<and> ?e2 \<and> ?s2 \<and> ?c4 \<and> ?t3 \<and> ?e3 \<and> ?s3 \<and> ?m3 \<and> ?c5")
proof -
  have t1: ?t1 by code_simp
  have r1: ?r1 by code_simp
  have p1: ?p1 by simp
  have p2: ?p2 by code_simp
  have p3: ?p3 by code_simp
  have q: ?q by code_simp
  have t2: ?t2 by code_simp
  have e2: ?e2 by code_simp
  have s2: ?s2 by code_simp
  have t3: ?t3 by code_simp
  have e3: ?e3 by code_simp
  have s3: ?s3 by code_simp
  have m3: ?m3 by code_simp
  note g = insert_table_row_position[OF t1, where vs="[''u'']" and h=True]
  have c1: ?c1 by (rule mp[OF conjunct1[OF g] r1])
  have c2: ?c2
    using mp[OF conjunct1[OF conjunct2[OF g[where rp=1 and ps=14 and pe=43]]]
        conjI[OF p1 conjI[OF p2 p3]]]
    by simp
  have c3: ?c3 by (rule mp[OF conjunct1[OF conjunct2[OF conjunct2[OF g]]] q])
  note b = insert_table_row_position[OF t2, where vs="[''u'']" and h=True]
  have c4: ?c4
    using mp[OF conjunct1[OF conjunct2[OF conjunct2[OF conjunct2[OF b]]]] conjI[OF e2 s2]]
    by simp
  note d = insert_table_row_position[OF t3, where vs="[''u'']" and h=True]
  have c5: ?c5
    using mp[OF conjunct1[OF conjunct2[OF conjunct2[OF conjunct2[OF conjunct2[OF d]]]]]
        conjI[OF e3 conjI[OF s3 m3]]]
    by simp
  show ?thesis by (intro conjI t1 r1 c1 p1 p2 p3 c2 q c3 t2 e2 s2 c4 t3 e3 s3 m3 c5)
qed

section \<open>The exact-substring patch replaces the first occurrence\<close>

lemma startswith_iff: "startswith s p \<longleftrightarrow> (\<exists>post. s = p @ post)"
  unfolding startswith_def
  by (metis append_eq_conv_conj append_take_drop_id)

lemma find_from_None:
  "find_from i old s = None \<longleftrightarrow> \<not> (\<exists>pre post. s = pre @ old @ post)"
proof (induction s arbitrary: i)
  case Nil
  then show ?case by auto
next
  case (Cons c cs)
  show ?case
  proof (cases "startswith (c # cs) old")
    case True
    then obtain post where "c # cs = [] @ old @ post" by (auto simp: startswith_iff)
    with True show ?thesis by (metis find_from.simps(2) option.distinct(1))
  next
    case False
    have "(\<exists>pre post. c # cs = pre @ old @ post) \<longleftrightarrow> (\<exists>pre post. cs = pre @ old @ post)"
    proof
      assume "\<exists>pre post. c # cs = pre @ old @ post"
      then obtain pre post where p: "c # cs = pre @ old @ post" by blast
      with False have "pre \<noteq> []" by (auto simp: startswith_iff)
      then obtain pre' where "pre = c # pre'" using p by (cases pre) auto
      with p show "\<exists>pre post. cs = pre @ old @ post" by auto
    next
      assume "\<exists>pre post. cs = pre @ old @ post"
      then obtain pre post where "cs = pre @ old @ post" by blast
      then have "c # cs = (c # pre) @ old @ post" by simp
      then show "\<exists>pre post. c # cs = pre @ old @ post" by blast
    qed
    with False Cons.IH[of "Suc i"] show ?thesis by simp
  qed
qed

lemma find_from_first:
  assumes "s = pre @ old @ post"
    and "\<And>pre' post'. s = pre' @ old @ post' \<Longrightarrow> length pre \<le> length pre'"
  shows "find_from i old s = Some (i + length pre)"
  using assms
proof (induction s arbitrary: i pre)
  case Nil
  then show ?case by auto
next
  case (Cons c cs)
  show ?case
  proof (cases "startswith (c # cs) old")
    case True
    then obtain post' where "c # cs = [] @ old @ post'" by (auto simp: startswith_iff)
    from Cons.prems(2)[OF this] have "pre = []" by simp
    with True show ?thesis by simp
  next
    case False
    with Cons.prems(1) have "pre \<noteq> []" by (auto simp: startswith_iff)
    then obtain pre0 where pre0: "pre = c # pre0" using Cons.prems(1) by (cases pre) auto
    with Cons.prems(1) have a: "cs = pre0 @ old @ post" by simp
    have b: "length pre0 \<le> length pre'" if "cs = pre' @ old @ post'" for pre' post'
    proof -
      from that have "c # cs = (c # pre') @ old @ post'" by simp
      from Cons.prems(2)[OF this] pre0 show ?thesis by simp
    qed
    from Cons.IH[where i="Suc i", OF a b] False pre0 show ?thesis by simp
  qed
qed

lemma contains_iff: "contains s old \<longleftrightarrow> (\<exists>pre post. s = pre @ old @ post)"
  using find_from_None[of 0 old s] by (simp add: contains_def str_find_def)

lemma replace_first_first:
  assumes "s = pre @ old @ post"
    and "\<And>pre' post'. s = pre' @ old @ post' \<Longrightarrow> length pre \<le> length pre'"
  shows "replace_first s old new = pre @ new @ post"
  using find_from_first[where i=0, OF assms] assms(1) by (simp add: replace_first_def str_find_def)

lemma find_from_least:
  assumes "find_from 0 old s = Some k" "s = pre' @ old @ post'"
  shows "k \<le> length pre'"
proof -
  have "\<exists>pre post. s = pre @ old @ post" using assms(2) by blast
  then obtain n where n: "\<exists>pre post. s = pre @ old @ post \<and> length pre = n" by blast
  define m where "m = (LEAST n. \<exists>pre post. s = pre @ old @ post \<and> length pre = n)"
  from n have "\<exists>pre post. s = pre @ old @ post \<and> length pre = m"
    unfolding m_def by (rule LeastI)
  then obtain pre post where p: "s = pre @ old @ post" "length pre = m" by blast
  have "length pre \<le> length q" if "s = q @ old @ post''" for q post''
    unfolding p(2) m_def using that by (intro Least_le) blast
  from find_from_first[where i=0, OF p(1) this] assms(1) p(2) have "k = m" by simp
  moreover have "m \<le> length pre'" unfolding m_def using assms(2) by (intro Least_le) blast
  ultimately show ?thesis by simp
qed

text \<open>
  C2. The patch of \<open>edit_page\<close>: when the old fragment is not a literal part of the
  document, the answer is the no-match failure and nothing is written. When it is, the
  first occurrence (the one with the shortest text before it) is replaced by the new
  fragment, which is first compiled from Markdown when its trimmed text is not empty
  and does not start with \<open><\<close>; the text before and after that occurrence, with any
  later occurrence, stays as it is.
\<close>

theorem exact_patch:
  "(\<not> (\<exists>pre post. doc = pre @ old @ post) \<longrightarrow> edit_page doc old new = Inl NoMatch)
   \<and> (doc = pre @ old @ post
       \<and> (\<forall>pre' post'. doc = pre' @ old @ post' \<longrightarrow> length pre \<le> length pre') \<longrightarrow>
       edit_page doc old new
       = Inr (pre
              @ (if strip new \<noteq> [] \<and> \<not> startswith (strip new) ''<''
                 then markdown_to_confluence new else new)
              @ post))"
proof (intro conjI impI)
  assume "\<not> (\<exists>pre post. doc = pre @ old @ post)"
  then show "edit_page doc old new = Inl NoMatch"
    by (simp add: edit_page_def contains_iff)
next
  assume a: "doc = pre @ old @ post
       \<and> (\<forall>pre' post'. doc = pre' @ old @ post' \<longrightarrow> length pre \<le> length pre')"
  then have "contains doc old" by (auto simp: contains_iff)
  moreover from a have "replace_first doc old x = pre @ x @ post" for x
    by (intro replace_first_first) auto
  ultimately show "edit_page doc old new
       = Inr (pre
              @ (if strip new \<noteq> [] \<and> \<not> startswith (strip new) ''<''
                 then markdown_to_confluence new else new)
              @ post)"
    by (simp add: edit_page_def Let_def)
qed

theorem exact_patch_witness:
  "\<not> (\<exists>pre post. ''<h1>t</h1><p>old</p><p>old</p>'' = pre @ ''<p>gone</p>'' @ post)
   \<and> edit_page ''<h1>t</h1><p>old</p><p>old</p>'' ''<p>gone</p>'' ''<p>new</p>'' = Inl NoMatch
   \<and> ''<h1>t</h1><p>old</p><p>old</p>'' = ''<h1>t</h1>'' @ ''<p>old</p>'' @ ''<p>old</p>''
   \<and> find_from 0 ''<p>old</p>'' ''<h1>t</h1><p>old</p><p>old</p>'' = Some (length ''<h1>t</h1>'')
   \<and> edit_page ''<h1>t</h1><p>old</p><p>old</p>'' ''<p>old</p>'' ''<p>new</p>''
       = Inr ''<h1>t</h1><p>new</p><p>old</p>''
   \<and> edit_page ''<h1>t</h1><p>old</p><p>old</p>'' ''<p>old</p>'' ''new *x*''
       = Inr ''<h1>t</h1><p>new <em>x</em></p><p>old</p>''"
  (is "?h1 \<and> ?c1 \<and> ?h2 \<and> ?f \<and> ?c2 \<and> ?c3")
proof -
  let ?doc = "''<h1>t</h1><p>old</p><p>old</p>''"
  let ?h3 = "\<forall>pre' post'. ?doc = pre' @ ''<p>old</p>'' @ post'
               \<longrightarrow> length ''<h1>t</h1>'' \<le> length pre'"
  have n: "find_from 0 ''<p>gone</p>'' ?doc = None" by code_simp
  have h1: ?h1 by (rule iffD1[OF find_from_None n])
  have h2: ?h2 by simp
  have f: "find_from 0 ''<p>old</p>'' ?doc = Some 10" by code_simp
  have h3: ?h3
  proof (intro allI impI)
    fix pre' post'
    assume "?doc = pre' @ ''<p>old</p>'' @ post'"
    from find_from_least[OF f this] show "length ''<h1>t</h1>'' \<le> length pre'" by simp
  qed
  have k1: "(if strip ''<p>new</p>'' \<noteq> [] \<and> \<not> startswith (strip ''<p>new</p>'') ''<''
             then markdown_to_confluence ''<p>new</p>'' else ''<p>new</p>'') = ''<p>new</p>''"
    by code_simp
  have k2: "(if strip ''new *x*'' \<noteq> [] \<and> \<not> startswith (strip ''new *x*'') ''<''
             then markdown_to_confluence ''new *x*'' else ''new *x*'') = ''<p>new <em>x</em></p>''"
    by code_simp
  have c1: ?c1
    by (rule mp[OF conjunct1[OF exact_patch] h1])
  have c2: ?c2
    using mp[OF conjunct2[OF exact_patch[where doc="?doc" and pre="''<h1>t</h1>''"
          and old="''<p>old</p>''" and post="''<p>old</p>''" and new="''<p>new</p>''"]] conjI[OF h2 h3]]
    unfolding k1 by simp
  have c3: ?c3
    using mp[OF conjunct2[OF exact_patch[where doc="?doc" and pre="''<h1>t</h1>''"
          and old="''<p>old</p>''" and post="''<p>old</p>''" and new="''new *x*''"]] conjI[OF h2 h3]]
    unfolding k2 by simp
  have f': ?f using f by simp
  show ?thesis by (intro conjI h1 c1 h2 f' c2 c3)
qed

section \<open>The decompiler collapses blank lines and trims\<close>

lemma run_newlines:
  "run [Rep (AnyOf [NL]) 0 None True] prev rest g = Some (dropWhile (\<lambda>c. c = NL) rest, g)"
  by (induction rest arbitrary: prev) (simp_all add: may_take_def dec_max_def)

lemma run_blank_lines:
  "run blank_lines_re prev rest g
   = (if 3 \<le> lead rest then Some (dropWhile (\<lambda>c. c = NL) rest, g) else None)"
proof -
  have r: "blank_lines_re = [Rep (AnyOf [NL]) (Suc (Suc (Suc 0))) None True]"
    by (simp add: blank_lines_re_def numeral_3_eq_3)
  show ?thesis
  proof (cases rest)
    case Nil
    then show ?thesis by (simp add: r lead_def)
  next
    case c1: (Cons a r1)
    show ?thesis
    proof (cases r1)
      case Nil
      with c1 show ?thesis by (simp add: r lead_def may_take_def dec_max_def)
    next
      case c2: (Cons b r2)
      show ?thesis
      proof (cases r2)
        case Nil
        with c1 c2 show ?thesis by (simp add: r lead_def may_take_def dec_max_def)
      next
        case c3: (Cons c r3)
        with c1 c2 show ?thesis
          by (simp add: r lead_def may_take_def dec_max_def run_newlines)
      qed
    qed
  qed
qed

lemma length_dropWhile_lead: "length rest - length (dropWhile (\<lambda>c. c = NL) rest) = lead rest"
proof -
  have "length rest = length (takeWhile (\<lambda>c. c = NL) rest) + length (dropWhile (\<lambda>c. c = NL) rest)"
    by (metis length_append takeWhile_dropWhile_id)
  then show ?thesis by (simp add: lead_def)
qed

lemma match_at_blank_lines:
  "match_at blank_lines_re pos prev rest
   = (if 3 \<le> lead rest
      then Some \<lparr>m_start = pos, m_end = pos + lead rest, m_text = take (lead rest) rest,
                 m_groups = no_groups\<rparr>
      else None)"
proof (cases "3 \<le> lead rest")
  case True
  with length_dropWhile_lead[of rest]
  have "length (dropWhile (\<lambda>c. c = NL) rest) < length rest" by arith
  with True length_dropWhile_lead[of rest] show ?thesis
    by (simp add: match_at_def run_blank_lines Let_def)
next
  case False
  then show ?thesis by (simp add: match_at_def run_blank_lines)
qed

lemma no_blank_run_Cons:
  assumes "no_blank_run ys" "x \<noteq> NL \<or> lead ys < 2"
  shows "no_blank_run (x # ys)"
  unfolding no_blank_run_def
proof (intro allI notI)
  fix pre post
  assume e: "x # ys = pre @ [NL, NL, NL] @ post"
  show False
  proof (cases pre)
    case Nil
    with e have "x = NL" "ys = NL # NL # post" by simp_all
    with assms(2) show False by (simp add: lead_def)
  next
    case (Cons p pre')
    with e have "ys = pre' @ [NL, NL, NL] @ post" by simp
    with assms(1) show False unfolding no_blank_run_def by blast
  qed
qed

lemma no_blank_run_Nil: "no_blank_run []"
  by (simp add: no_blank_run_def)

lemma no_blank_run_part:
  assumes "no_blank_run (a @ s @ b)"
  shows "no_blank_run s"
  unfolding no_blank_run_def
proof (intro allI notI)
  fix pre post
  assume "s = pre @ [NL, NL, NL] @ post"
  then have "a @ s @ b = (a @ pre) @ [NL, NL, NL] @ (post @ b)" by simp
  with assms show False unfolding no_blank_run_def by blast
qed

lemma takeWhile_after_dropWhile: "takeWhile P (dropWhile P xs) = []"
  by (induction xs) simp_all

lemma lead_drop: "lead (drop (lead rest) rest) = 0"
proof -
  have "drop (lead rest) rest = dropWhile (\<lambda>c. c = NL) rest"
    unfolding lead_def by (rule dropWhile_eq_drop[symmetric])
  then show ?thesis by (simp add: lead_def takeWhile_after_dropWhile)
qed

lemma collapse_blank_lines:
  "no_blank_run (sub_from blank_lines_re (expand [TLit [NL, NL]]) pos prev rest)
   \<and> lead (sub_from blank_lines_re (expand [TLit [NL, NL]]) pos prev rest) = min 2 (lead rest)"
proof (induction blank_lines_re "expand [TLit [NL, NL]]" pos prev rest rule: sub_from.induct)
  case (1 pos prev)
  show ?case by (simp add: no_blank_run_Nil lead_def)
next
  case (2 pos prev x xs)
  let ?k = "lead (x # xs)"
  show ?case
  proof (cases "3 \<le> ?k")
    case True
    let ?m = "\<lparr>m_start = pos, m_end = pos + ?k, m_text = take ?k (x # xs), m_groups = no_groups\<rparr>"
    have m: "match_at blank_lines_re pos prev (x # xs) = Some ?m"
      using True by (simp add: match_at_blank_lines)
    have d: "drop (Suc (m_end ?m - Suc pos)) (x # xs) = drop ?k (x # xs)"
      using True by simp
    let ?out = "sub_from blank_lines_re (expand [TLit [NL, NL]]) (m_end ?m)
                  (last_of prev (m_text ?m)) (drop ?k (x # xs))"
    from "2.hyps"(2)[OF m] have ih: "no_blank_run ?out" "lead ?out = 0"
      unfolding d by (simp_all add: lead_drop)
    have e: "sub_from blank_lines_re (expand [TLit [NL, NL]]) pos prev (x # xs) = NL # NL # ?out"
      using m True by (simp add: expand_def)
    have l0: "lead ?out < 2" using ih(2) by simp
    have n1: "no_blank_run (NL # ?out)"
      by (rule no_blank_run_Cons[OF ih(1) disjI2[OF l0]])
    have l1: "lead (NL # ?out) < 2" using ih(2) by (simp add: lead_def)
    have n2: "no_blank_run (NL # NL # ?out)"
      by (rule no_blank_run_Cons[OF n1 disjI2[OF l1]])
    have l2: "lead (NL # NL # ?out) = 2" using ih(2) by (simp add: lead_def)
    show ?thesis using True n2 l2 unfolding e by simp
  next
    case False
    then have m: "match_at blank_lines_re pos prev (x # xs) = None"
      by (simp add: match_at_blank_lines)
    let ?out = "sub_from blank_lines_re (expand [TLit [NL, NL]]) (Suc pos) (Some x) xs"
    from "2.hyps"(1)[OF m] have ih: "no_blank_run ?out" "lead ?out = min 2 (lead xs)" by simp_all
    have e: "sub_from blank_lines_re (expand [TLit [NL, NL]]) pos prev (x # xs) = x # ?out"
      using m by simp
    show ?thesis
    proof (cases "x = NL")
      case True
      with False have lx: "lead xs < 2" by (simp add: lead_def)
      with ih(2) have lo: "lead ?out = lead xs" "lead ?out < 2" by simp_all
      have n: "no_blank_run (x # ?out)"
        by (rule no_blank_run_Cons[OF ih(1) disjI2[OF lo(2)]])
      have "lead (x # ?out) = Suc (lead ?out)" using True by (simp add: lead_def)
      moreover have "lead (x # xs) = Suc (lead xs)" using True by (simp add: lead_def)
      ultimately have "lead (x # ?out) = min 2 (lead (x # xs))" using lo lx by simp
      with n show ?thesis unfolding e by simp
    next
      case False
      have n: "no_blank_run (x # ?out)"
        by (rule no_blank_run_Cons[OF ih(1) disjI1[OF False]])
      have "lead (x # ?out) = 0" "lead (x # xs) = 0" using False by (simp_all add: lead_def)
      with n show ?thesis unfolding e by simp
    qed
  qed
qed

lemma strip_part: "\<exists>a b. s = a @ strip s @ b"
proof -
  have "s = takeWhile isspace s @ lstrip s" by (simp add: lstrip_def)
  moreover have "lstrip s = rstrip (lstrip s) @ rev (takeWhile isspace (rev (lstrip s)))"
    unfolding rstrip_def by (metis rev_append rev_rev_ident takeWhile_dropWhile_id)
  ultimately have "s = takeWhile isspace s @ strip s @ rev (takeWhile isspace (rev (lstrip s)))"
    by (simp add: strip_def)
  then show ?thesis by blast
qed

lemma strip_ends:
  assumes "strip s \<noteq> []"
  shows "\<not> isspace (hd (strip s))" "\<not> isspace (last (strip s))"
proof -
  let ?l = "lstrip s"
  from assms have ne: "dropWhile isspace (rev ?l) \<noteq> []" by (simp add: strip_def rstrip_def)
  then have "\<not> isspace (hd (dropWhile isspace (rev ?l)))" by (rule hd_dropWhile)
  then show "\<not> isspace (last (strip s))"
    using ne by (simp add: strip_def rstrip_def last_rev)
  from ne have lne: "?l \<noteq> []" by auto
  then have h: "\<not> isspace (hd ?l)" unfolding lstrip_def by (rule hd_dropWhile)
  have "?l = strip s @ rev (takeWhile isspace (rev ?l))"
    unfolding strip_def rstrip_def by (metis rev_append rev_rev_ident takeWhile_dropWhile_id)
  with assms have "hd ?l = hd (strip s)" by (metis hd_append2)
  with h show "\<not> isspace (hd (strip s))" by simp
qed

lemma squeeze_step:
  "sub_from blank_lines_re (expand [TLit [NL, NL]]) pos prev (x # xs)
   = (if 3 \<le> lead (x # xs)
      then [NL, NL] @ sub_from blank_lines_re (expand [TLit [NL, NL]]) (pos + lead (x # xs))
                        (last_of prev (take (lead (x # xs)) (x # xs)))
                        (drop (lead (x # xs)) (x # xs))
      else x # sub_from blank_lines_re (expand [TLit [NL, NL]]) (Suc pos) (Some x) xs)"
proof (cases "3 \<le> lead (x # xs)")
  case True
  then have "Suc (pos + lead (x # xs) - Suc pos) = lead (x # xs)" by simp
  with True show ?thesis by (simp add: match_at_blank_lines expand_def)
next
  case False
  then show ?thesis by (simp add: match_at_blank_lines)
qed

lemma squeeze_indep:
  "sub_from blank_lines_re (expand [TLit [NL, NL]]) pos prev s
   = sub_from blank_lines_re (expand [TLit [NL, NL]]) pos' prev' s"
proof (induction s arbitrary: pos prev pos' prev' rule: length_induct)
  case (1 s)
  show ?case
  proof (cases s)
    case Nil
    then show ?thesis by simp
  next
    case (Cons x xs)
    show ?thesis
    proof (cases "3 \<le> lead s")
      case True
      then have "length (drop (lead s) s) < length s" using Cons by simp
      from "1.IH"[rule_format, OF this] True show ?thesis
        unfolding Cons squeeze_step by simp
    next
      case False
      from "1.IH"[rule_format, of xs] False Cons show ?thesis
        unfolding Cons squeeze_step by simp
    qed
  qed
qed

lemma lead_ge3: "3 \<le> lead s \<Longrightarrow> \<exists>post. s = [NL, NL, NL] @ post"
proof -
  assume a: "3 \<le> lead s"
  then obtain x1 r1 where s1: "s = x1 # r1" by (cases s) (auto simp: lead_def)
  with a have x1: "x1 = NL" "2 \<le> lead r1" by (auto simp: lead_def split: if_splits)
  then obtain x2 r2 where s2: "r1 = x2 # r2" by (cases r1) (auto simp: lead_def)
  with x1 have x2: "x2 = NL" "1 \<le> lead r2" by (auto simp: lead_def split: if_splits)
  then obtain x3 r3 where s3: "r2 = x3 # r3" by (cases r2) (auto simp: lead_def)
  with x2 have "x3 = NL" by (auto simp: lead_def split: if_splits)
  with s1 s2 s3 x1 x2 show ?thesis by simp
qed

lemma no_blank_run_lead: "no_blank_run s \<Longrightarrow> lead s < 3"
proof (rule ccontr)
  assume n: "no_blank_run s" and "\<not> lead s < 3"
  then have "3 \<le> lead s" by simp
  from lead_ge3[OF this] obtain post where "s = [] @ [NL, NL, NL] @ post" by auto
  with n show False unfolding no_blank_run_def by blast
qed

lemma squeeze_id:
  "no_blank_run s \<Longrightarrow> sub_from blank_lines_re (expand [TLit [NL, NL]]) pos prev s = s"
proof (induction s arbitrary: pos prev)
  case Nil
  show ?case by simp
next
  case (Cons x xs)
  from Cons.prems have "no_blank_run ([x] @ xs @ [])" by simp
  then have "no_blank_run xs" by (rule no_blank_run_part)
  with Cons.IH no_blank_run_lead[OF Cons.prems] show ?case
    unfolding squeeze_step by simp
qed

lemma lead_append: "\<exists>c\<in>set a. c \<noteq> NL \<Longrightarrow> lead (a @ r) = lead a"
  unfolding lead_def by (simp add: takeWhile_append1[where P="\<lambda>c. c = NL"] takeWhile_append)
     (metis (mono_tags, lifting) takeWhile_append1)

lemma squeeze_split:
  "a = [] \<or> last a \<noteq> NL \<Longrightarrow>
   sub_from blank_lines_re (expand [TLit [NL, NL]]) pos prev (a @ r)
   = sub_from blank_lines_re (expand [TLit [NL, NL]]) pos prev a
     @ sub_from blank_lines_re (expand [TLit [NL, NL]]) pos' prev' r"
proof (induction a arbitrary: pos prev rule: length_induct)
  case (1 a)
  show ?case
  proof (cases a)
    case Nil
    then show ?thesis using squeeze_indep[of pos prev r pos' prev'] by simp
  next
    case (Cons x xs)
    with "1.prems" have l: "last a \<noteq> NL" "a \<noteq> []" by auto
    then have ex: "\<exists>c\<in>set a. c \<noteq> NL" using last_in_set by blast
    then have la: "lead (a @ r) = lead a" by (rule lead_append)
    have lt: "lead a < length a"
    proof (rule ccontr)
      assume "\<not> lead a < length a"
      then have "length (takeWhile (\<lambda>c. c = NL) a) = length a"
        using length_takeWhile_le[of "\<lambda>c. c = NL" a] by (simp add: lead_def)
      then have "takeWhile (\<lambda>c. c = NL) a = a"
        by (metis append_eq_conv_conj takeWhile_dropWhile_id take_all_iff order_refl)
      then have "\<forall>c\<in>set a. c = NL" by (metis set_takeWhileD)
      with ex show False by blast
    qed
    show ?thesis
    proof (cases "3 \<le> lead a")
      case True
      let ?d = "drop (lead a) a"
      from lt have dne: "?d \<noteq> []" by simp
      then have dl: "last ?d \<noteq> NL" using l by simp
      have dlen: "length ?d < length a" using True l by simp
      have dd: "drop (lead a) (a @ r) = ?d @ r" using lt by simp
      have tk: "take (lead a) (a @ r) = take (lead a) a" using lt by simp
      from "1.IH"[rule_format, OF dlen disjI2[OF dl]] True la dd tk show ?thesis
        using Cons squeeze_step[of pos prev x "xs @ r"] squeeze_step[of pos prev x xs]
        by simp
    next
      case False
      have xl: "xs = [] \<or> last xs \<noteq> NL" using l Cons by (cases xs) auto
      from "1.IH"[rule_format, of xs, OF _ xl] False la show ?thesis
        using Cons squeeze_step[of pos prev x "xs @ r"] squeeze_step[of pos prev x xs]
        by simp
    qed
  qed
qed

lemma squeeze_run:
  assumes "3 \<le> n" "b = [] \<or> hd b \<noteq> NL"
  shows "sub_from blank_lines_re (expand [TLit [NL, NL]]) pos prev (replicate n NL @ b)
         = [NL, NL] @ sub_from blank_lines_re (expand [TLit [NL, NL]]) pos' prev' b"
proof -
  from assms(1) obtain m where n: "n = Suc m" by (cases n) auto
  have "takeWhile (\<lambda>c. c = NL) (replicate k NL @ b) = replicate k NL" for k
    using assms(2) by (induction k) (cases b; simp)+
  then have l: "lead (replicate n NL @ b) = n" by (simp add: lead_def)
  have "sub_from blank_lines_re (expand [TLit [NL, NL]]) pos prev (replicate n NL @ b)
        = [NL, NL] @ sub_from blank_lines_re (expand [TLit [NL, NL]]) (pos + n)
                        (last_of prev (take n (replicate n NL @ b))) b"
    using squeeze_step[of pos prev NL "replicate m NL @ b"] l assms(1) unfolding n by simp
  then show ?thesis using squeeze_indep by metis
qed

lemma strip_parts:
  "s = takeWhile isspace s @ strip s @ rev (takeWhile isspace (rev (lstrip s)))"
proof -
  have "s = takeWhile isspace s @ lstrip s" by (simp add: lstrip_def)
  moreover have "lstrip s = rstrip (lstrip s) @ rev (takeWhile isspace (rev (lstrip s)))"
    unfolding rstrip_def by (metis rev_append rev_rev_ident takeWhile_dropWhile_id)
  ultimately show ?thesis by (simp add: strip_def)
qed

lemma list_all_takeWhile: "list_all P (takeWhile P xs)"
  by (induction xs) simp_all

text \<open>
  C8. For every input, and whatever the decoding of the entities gives, the output of
  \<open>confluence_to_markdown\<close> contains no three line breaks in a row, and when it is not
  empty it neither starts nor ends with a white-space character. It is the text after
  the substitution of the runs of line breaks without white space before and after it.
  That substitution leaves a text without three line breaks in a row as it is, and
  replaces a run of three or more line breaks, between a text that does not end and a
  text that does not start with a line break, by exactly two.
\<close>

theorem markdown_output_trimmed:
  "\<not> contains (confluence_to_markdown unescape html_content) [NL, NL, NL]
   \<and> (confluence_to_markdown unescape html_content \<noteq> [] \<longrightarrow>
        \<not> isspace (hd (confluence_to_markdown unescape html_content))
        \<and> \<not> isspace (last (confluence_to_markdown unescape html_content)))
   \<and> (\<exists>before after.
        list_all isspace before \<and> list_all isspace after
        \<and> re_sub blank_lines_re [TLit [NL, NL]] (unescape (storage_rewrites html_content))
          = before @ confluence_to_markdown unescape html_content @ after)
   \<and> (\<not> contains s [NL, NL, NL] \<longrightarrow> re_sub blank_lines_re [TLit [NL, NL]] s = s)
   \<and> (3 \<le> n \<and> (a = [] \<or> last a \<noteq> NL) \<and> (b = [] \<or> hd b \<noteq> NL) \<longrightarrow>
        re_sub blank_lines_re [TLit [NL, NL]] (a @ replicate n NL @ b)
        = re_sub blank_lines_re [TLit [NL, NL]] a @ [NL, NL]
          @ re_sub blank_lines_re [TLit [NL, NL]] b)"
proof (intro conjI)
  let ?c = "re_sub blank_lines_re [TLit [NL, NL]] (unescape (storage_rewrites html_content))"
  have out: "confluence_to_markdown unescape html_content = strip ?c"
    by (simp add: confluence_to_markdown_def Let_def)
  have "no_blank_run ?c"
    using collapse_blank_lines by (simp add: re_sub_def re_sub_fn_def)
  moreover have "?c = takeWhile isspace ?c @ strip ?c
                      @ rev (takeWhile isspace (rev (lstrip ?c)))"
    by (rule strip_parts)
  ultimately have "no_blank_run (strip ?c)" using no_blank_run_part by metis
  then show "\<not> contains (confluence_to_markdown unescape html_content) [NL, NL, NL]"
    unfolding out by (simp add: contains_iff no_blank_run_def)
  show "confluence_to_markdown unescape html_content \<noteq> [] \<longrightarrow>
        \<not> isspace (hd (confluence_to_markdown unescape html_content))
        \<and> \<not> isspace (last (confluence_to_markdown unescape html_content))"
    using strip_ends[of ?c] unfolding out by blast
  have "list_all isspace (takeWhile isspace ?c)" by (rule list_all_takeWhile)
  moreover have "list_all isspace (rev (takeWhile isspace (rev (lstrip ?c))))"
    using list_all_takeWhile[of isspace "rev (lstrip ?c)"] by (simp add: list_all_iff)
  moreover note strip_parts[of ?c]
  ultimately show "\<exists>before after.
        list_all isspace before \<and> list_all isspace after
        \<and> ?c = before @ confluence_to_markdown unescape html_content @ after"
    unfolding out by blast
  show "\<not> contains s [NL, NL, NL] \<longrightarrow> re_sub blank_lines_re [TLit [NL, NL]] s = s"
    using squeeze_id[of s 0 None]
    by (simp add: contains_iff no_blank_run_def re_sub_def re_sub_fn_def)
  show "3 \<le> n \<and> (a = [] \<or> last a \<noteq> NL) \<and> (b = [] \<or> hd b \<noteq> NL) \<longrightarrow>
        re_sub blank_lines_re [TLit [NL, NL]] (a @ replicate n NL @ b)
        = re_sub blank_lines_re [TLit [NL, NL]] a @ [NL, NL]
          @ re_sub blank_lines_re [TLit [NL, NL]] b"
  proof (intro impI, elim conjE)
    assume h: "3 \<le> n" "a = [] \<or> last a \<noteq> NL" "b = [] \<or> hd b \<noteq> NL"
    from squeeze_split[OF h(2), of 0 None "replicate n NL @ b" 0 None]
      squeeze_run[OF h(1,3), of 0 None 0 None]
    show "re_sub blank_lines_re [TLit [NL, NL]] (a @ replicate n NL @ b)
        = re_sub blank_lines_re [TLit [NL, NL]] a @ [NL, NL]
          @ re_sub blank_lines_re [TLit [NL, NL]] b"
      by (simp add: re_sub_def re_sub_fn_def)
  qed
qed

theorem markdown_output_trimmed_witness:
  "confluence_to_markdown (\<lambda>s. s) (''<p>a</p>'' @ [NL, NL, NL, NL] @ ''<p>b</p>  '')
     = ''a'' @ [NL, NL] @ ''b''
   \<and> \<not> contains
         (confluence_to_markdown (\<lambda>s. s) (''<p>a</p>'' @ [NL, NL, NL, NL] @ ''<p>b</p>  ''))
         [NL, NL, NL]
   \<and> \<not> isspace
         (hd (confluence_to_markdown (\<lambda>s. s) (''<p>a</p>'' @ [NL, NL, NL, NL] @ ''<p>b</p>  '')))
   \<and> \<not> isspace
         (last (confluence_to_markdown (\<lambda>s. s) (''<p>a</p>'' @ [NL, NL, NL, NL] @ ''<p>b</p>  '')))
   \<and> re_sub blank_lines_re [TLit [NL, NL]]
         (storage_rewrites (''<p>a</p>'' @ [NL, NL, NL, NL] @ ''<p>b</p>  ''))
       = [] @ (''a'' @ [NL, NL] @ ''b'') @ (NL # ''  '')
   \<and> \<not> contains (''a'' @ [NL, NL] @ ''b'') [NL, NL, NL]
   \<and> re_sub blank_lines_re [TLit [NL, NL]] (''a'' @ [NL, NL] @ ''b'') = ''a'' @ [NL, NL] @ ''b''
   \<and> (3::nat) \<le> 4 \<and> last ''a'' \<noteq> NL \<and> hd ''b'' \<noteq> NL
   \<and> re_sub blank_lines_re [TLit [NL, NL]] (''a'' @ replicate 4 NL @ ''b'')
       = re_sub blank_lines_re [TLit [NL, NL]] ''a'' @ [NL, NL]
         @ re_sub blank_lines_re [TLit [NL, NL]] ''b''"
  (is "?out = ?v \<and> ?a \<and> ?b \<and> ?c \<and> ?d \<and> ?h4 \<and> ?c4 \<and> ?h5 \<and> ?h6 \<and> ?h7 \<and> ?c5")
proof -
  have v: "?out = ?v" by code_simp
  then have ne: "?out \<noteq> []" by simp
  note t = markdown_output_trimmed[where unescape="\<lambda>s. s"
      and html_content="''<p>a</p>'' @ [NL, NL, NL, NL] @ ''<p>b</p>  ''"
      and s="''a'' @ [NL, NL] @ ''b''" and n=4 and a="''a''" and b="''b''"]
  have a: ?a by (rule conjunct1[OF t])
  have bc: "?b \<and> ?c" by (rule mp[OF conjunct1[OF conjunct2[OF t]] ne])
  have d: ?d by code_simp
  have h4: ?h4 by code_simp
  have c4: ?c4 by (rule mp[OF conjunct1[OF conjunct2[OF conjunct2[OF conjunct2[OF t]]]] h4])
  have h5: ?h5 by simp
  have h6: ?h6 by simp
  have h7: ?h7 by simp
  have c5: ?c5
    by (rule mp[OF conjunct2[OF conjunct2[OF conjunct2[OF conjunct2[OF t]]]]
          conjI[OF h5 conjI[OF disjI2[OF h6] disjI2[OF h7]]]])
  show ?thesis by (intro conjI v a conjunct1[OF bc] conjunct2[OF bc] d h4 c4 h5 h6 h7 c5)
qed

section \<open>The image step of the inline processor\<close>




















section \<open>The compiler on a heading and a list\<close>

text \<open>
  C7. Compiling the Markdown text \<open># Title\<close>, an empty line, \<open>- a\<close>, \<open>- b\<close> and a final
  line break gives the \<open>h1\<close> element with \<open>Title\<close>, then one \<open>ul\<close> element with the two
  items \<open>a\<close> and \<open>b\<close> in this order, closed at the end, and no paragraph element.
\<close>

theorem markdown_heading_then_list:
  "markdown_to_confluence (''# Title'' @ [NL, NL] @ ''- a'' @ [NL] @ ''- b'' @ [NL])
   = ''<h1>Title</h1>'' @ [NL] @ ''<ul>'' @ [NL] @ ''<li>a</li>'' @ [NL] @ ''<li>b</li>''
     @ [NL] @ ''</ul>''"
  by code_simp

section \<open>Deleting a column under a banner row\<close>

text \<open>
  C5. On the table of \<open>banner_doc\<close>, whose banner row has one cell with \<open>colspan="3"\<close>,
  deleting column 2 removes the cell \<open>c\<close> of the data row and leaves the banner row as
  it is, with \<open>colspan="3"\<close>: the row is returned by the test
  \<open>column_position >= len(cells)\<close> before its \<open>colspan\<close> is looked at.
\<close>

theorem delete_column_banner_kept:
  \<open>delete_column banner_doc 0 2
   = Inr (''<p>x</p><table><tbody><tr><th colspan="3">T</th></tr>''
          @ ''<tr><td>a</td><td>b</td></tr></tbody></table><p>y</p>'')\<close>
  by code_simp

end
